theory Spec2Isabelle
  imports Complex_Main "HOL-Library.Word"
begin

unbundle bit_operations_syntax

section \<open>The calibration session (Calibration.hpp, Calibration.cpp)\<close>

subsection \<open>Data\<close>

text \<open>
  \<^verbatim>\<open>enum class CalibrationPatternType\<close> of Calibration.hpp, in the order of its
  declaration.
\<close>

datatype CalibrationPatternType = CHESSBOARD | CIRCLES_GRID | ASYMMETRIC_CIRCLES_GRID

text \<open>
  A \<^verbatim>\<open>cv::Point2f\<close> is a pair of coordinates and a \<^verbatim>\<open>cv::Size\<close> a pair of
  ints (width, height). The session only stores and copies corner positions, it never
  computes with them, so the coordinates are carried as reals. The C \<^verbatim>\<open>int\<close>
  is a 32-bit word read with \<open>sint\<close>, \<^verbatim>\<open>size_t\<close> a 64-bit word read with
  \<open>unat\<close>. The frame dimensions are carried as the values of their C ints, and a
  product of two of them is computed as the C int it is (\<open>c_int_mul\<close> below).
\<close>

type_synonym Point2f = "real \<times> real"
type_synonym cv_Size = "int \<times> int"
type_synonym uint8_t = "8 word"
type_synonym c_int = "32 word"
type_synonym size_t = "64 word"

text \<open>
  The two ways in which a call does not return to its caller: \<^verbatim>\<open>exit(status)\<close>, and
  a \<^verbatim>\<open>memcpy\<close> whose source or destination does not hold the bytes asked for
  (undefined behaviour in C; the model stops there).
\<close>

datatype abort = Exit int | MemoryFault

text \<open>
  \<^verbatim>\<open>class CalibrationCornerFinderData\<close>. \<open>videoFrame\<close> is the owned pixel buffer,
  \<open>None\<close> for \<^verbatim>\<open>nullptr\<close>; \<^verbatim>\<open>calibImage\<close> is an image header over the same
  bytes and has no state of its own.
\<close>

record CalibrationCornerFinderData =
  patternType :: CalibrationPatternType
  patternSize :: cv_Size
  videoWidth :: int
  videoHeight :: int
  videoFrame :: "uint8_t list option"
  cornerFoundAllFlag :: int
  corners :: "Point2f list"

text \<open>
  \<^verbatim>\<open>class Calibration\<close>: the private members, without the thread handle and the
  mutex. Every function below that takes \<^verbatim>\<open>m_cornerFinderResultLock\<close> holds it from
  its first to its last access of \<open>m_cornerFinderResultData\<close>, so each is one atomic
  step on this record.
\<close>

record Calibration =
  m_cornerFinderData :: CalibrationCornerFinderData
  m_cornerFinderResultData :: CalibrationCornerFinderData
  m_corners :: "Point2f list list"
  m_calibImageCountMax :: c_int
  m_patternType :: CalibrationPatternType
  m_patternSize :: cv_Size
  m_chessboardSquareWidth :: int
  m_videoWidth :: int
  m_videoHeight :: int

subsection \<open>CalibrationCornerFinderData: construction and copying\<close>

text \<open>
  \<^verbatim>\<open>memcpy(dst, src, n)\<close>: copies the first \<open>n\<close> bytes of \<open>src\<close> over the first
  \<open>n\<close> bytes of \<open>dst\<close>. Copying no byte changes nothing; otherwise both
  buffers must exist and hold \<open>n\<close> bytes.
\<close>

definition memcpy ::
  "uint8_t list option \<Rightarrow> uint8_t list option \<Rightarrow> nat \<Rightarrow> abort + uint8_t list option" where
  "memcpy dst src n =
     (if n = 0 then Inr dst
      else case (dst, src) of
             (Some d, Some s) \<Rightarrow>
               if n \<le> length d \<and> n \<le> length s then Inr (Some (take n s @ drop n d))
               else Inl MemoryFault
           | _ \<Rightarrow> Inl MemoryFault)"

text \<open>
  The product of two C ints, as \<^verbatim>\<open>videoWidth * videoHeight\<close> computes it: in 32 bits,
  read as two's complement. (Signed overflow is undefined in C; the model takes the result
  of the machine multiplication, so that a product of 2^31 or more is not the mathematical
  one.)
\<close>

definition c_int_mul :: "int \<Rightarrow> int \<Rightarrow> int" where
  "c_int_mul a b = sint (word_of_int a * word_of_int b :: c_int)"

text \<open>
  \<^verbatim>\<open>init()\<close>: allocates \<^verbatim>\<open>videoWidth * videoHeight\<close> bytes, the product being a C
  int, when both dimensions are positive, and sets the buffer to \<^verbatim>\<open>nullptr\<close> otherwise.
  The fresh bytes are indeterminate in C; they are zero here. \<^verbatim>\<open>arMalloc\<close> is the
  library's macro; it is taken to return the bytes it is asked for. A wrapped product
  that is not positive gives no usable byte: the buffer is empty, and every copy of a
  byte to it or from it faults.
\<close>

definition init :: "CalibrationCornerFinderData \<Rightarrow> CalibrationCornerFinderData" where
  "init d =
     (if videoWidth d > 0 \<and> videoHeight d > 0
      then d\<lparr>videoFrame := Some (replicate (nat (c_int_mul (videoWidth d) (videoHeight d))) 0)\<rparr>
      else d\<lparr>videoFrame := None\<rparr>)"

text \<open>
  \<^verbatim>\<open>copy(orig)\<close>: \<^verbatim>\<open>memcpy(videoFrame, orig.videoFrame, sizeof(uint8_t) * videoWidth * videoHeight)\<close>;
  the byte count is computed in \<^verbatim>\<open>size_t\<close>.
\<close>

definition copy ::
  "CalibrationCornerFinderData \<Rightarrow> CalibrationCornerFinderData \<Rightarrow> abort + CalibrationCornerFinderData" where
  "copy d orig =
     (case memcpy (videoFrame d) (videoFrame orig)
             (unat (1 * word_of_int (videoWidth d) * word_of_int (videoHeight d) :: size_t)) of
        Inl a \<Rightarrow> Inl a
      | Inr f \<Rightarrow> Inr (d\<lparr>videoFrame := f\<rparr>))"

text \<open>The constructor from a pattern and frame dimensions.\<close>

definition CalibrationCornerFinderData_new ::
  "CalibrationPatternType \<Rightarrow> cv_Size \<Rightarrow> int \<Rightarrow> int \<Rightarrow> CalibrationCornerFinderData" where
  "CalibrationCornerFinderData_new patternType_in patternSize_in videoWidth_in videoHeight_in =
     init \<lparr>patternType = patternType_in, patternSize = patternSize_in,
           videoWidth = videoWidth_in, videoHeight = videoHeight_in,
           videoFrame = None, cornerFoundAllFlag = 0, corners = []\<rparr>"

text \<open>
  Copy assignment \<^verbatim>\<open>operator=\<close>, for \<^verbatim>\<open>this != &orig\<close> (the only use, in
  \<^verbatim>\<open>frame()\<close>, assigns one member to another): the old buffer is released, every
  field is taken from \<open>orig\<close>, a new buffer is allocated and the pixels are copied.
\<close>

definition assign ::
  "CalibrationCornerFinderData \<Rightarrow> CalibrationCornerFinderData \<Rightarrow> abort + CalibrationCornerFinderData" where
  "assign this orig =
     copy (init (this\<lparr>patternType := patternType orig, patternSize := patternSize orig,
                      videoWidth := videoWidth orig, videoHeight := videoHeight orig,
                      cornerFoundAllFlag := cornerFoundAllFlag orig,
                      corners := corners orig\<rparr>)) orig"

subsection \<open>The session\<close>

text \<open>
  The constructor \<^verbatim>\<open>Calibration::Calibration\<close>. It has no failing path and does not
  look at the pattern type; the result slot starts with dimensions 0 x 0, so without a
  buffer, with the flag 0 and without corners.
\<close>

definition Calibration_new ::
  "CalibrationPatternType \<Rightarrow> c_int \<Rightarrow> cv_Size \<Rightarrow> int \<Rightarrow> int \<Rightarrow> int \<Rightarrow> Calibration" where
  "Calibration_new patternType_in calibImageCountMax_in patternSize_in chessboardSquareWidth_in
       videoWidth_in videoHeight_in =
     \<lparr>m_cornerFinderData =
        CalibrationCornerFinderData_new patternType_in patternSize_in videoWidth_in videoHeight_in,
      m_cornerFinderResultData = CalibrationCornerFinderData_new patternType_in patternSize_in 0 0,
      m_corners = [],
      m_calibImageCountMax = calibImageCountMax_in,
      m_patternType = patternType_in,
      m_patternSize = patternSize_in,
      m_chessboardSquareWidth = chessboardSquareWidth_in,
      m_videoWidth = videoWidth_in,
      m_videoHeight = videoHeight_in\<rparr>"

text \<open>
  \<^verbatim>\<open>calibImageCount()\<close> returns \<^verbatim>\<open>(int)m_corners.size()\<close> and
  \<^verbatim>\<open>calibImageCountMax()\<close> the stored maximum; both are C ints.
\<close>

definition calibImageCount :: "Calibration \<Rightarrow> c_int" where
  "calibImageCount c = word_of_nat (length (m_corners c))"

definition calibImageCountMax :: "Calibration \<Rightarrow> c_int" where
  "calibImageCountMax c = m_calibImageCountMax c"

text \<open>
  \<^verbatim>\<open>capture()\<close>. The guard \<^verbatim>\<open>m_corners.size() >= m_calibImageCountMax\<close> compares a
  \<^verbatim>\<open>size_t\<close> with an \<^verbatim>\<open>int\<close>: the int is converted to \<^verbatim>\<open>size_t\<close> (sign
  extended, \<open>scast\<close>) and the comparison is unsigned. \<^verbatim>\<open>cv::cornerSubPix\<close> belongs to
  the vision library and is a parameter: from the image and the corners it gives the refined
  corners, which it writes back into the vector it was given, here the one of the result
  slot.
\<close>

definition capture ::
  "(uint8_t list option \<Rightarrow> Point2f list \<Rightarrow> Point2f list) \<Rightarrow> Calibration \<Rightarrow> bool \<times> Calibration" where
  "capture cornerSubPix c =
     (if unat (scast (m_calibImageCountMax c) :: size_t) \<le> length (m_corners c) then (False, c)
      else if cornerFoundAllFlag (m_cornerFinderResultData c) \<noteq> 0 then
        (let r = (m_cornerFinderResultData c)
                   \<lparr>corners := cornerSubPix (videoFrame (m_cornerFinderResultData c))
                                            (corners (m_cornerFinderResultData c))\<rparr>
         in (True, c\<lparr>m_cornerFinderResultData := r, m_corners := m_corners c @ [corners r]\<rparr>))
      else (False, c))"

text \<open>\<^verbatim>\<open>uncapture()\<close>: \<^verbatim>\<open>pop_back\<close> unless the vector is empty.\<close>

definition uncapture :: "Calibration \<Rightarrow> bool \<times> Calibration" where
  "uncapture c =
     (if length (m_corners c) \<le> 0 then (False, c)
      else (True, c\<lparr>m_corners := butlast (m_corners c)\<rparr>))"

text \<open>\<^verbatim>\<open>uncaptureAll()\<close>: \<^verbatim>\<open>clear\<close> unless the vector is empty.\<close>

definition uncaptureAll :: "Calibration \<Rightarrow> bool \<times> Calibration" where
  "uncaptureAll c =
     (if length (m_corners c) \<le> 0 then (False, c)
      else (True, c\<lparr>m_corners := []\<rparr>))"

subsection \<open>The corner finder worker and the frame cycle\<close>

text \<open>
  One pass of the loop of the worker thread \<^verbatim>\<open>cornerFinder\<close>, between
  \<^verbatim>\<open>threadStartWait\<close> and \<^verbatim>\<open>threadEndSignal\<close>: the \<^verbatim>\<open>switch\<close> on the pattern
  type. \<^verbatim>\<open>cv::findChessboardCorners\<close> belongs to the vision library and is a
  parameter: from the image and the pattern size it gives the found flag and the corners
  it wrote. Every pattern type but the chessboard takes the \<^verbatim>\<open>default\<close> branch, which
  prints and calls \<^verbatim>\<open>exit(0)\<close>.
\<close>

definition cornerFinder_job ::
  "(uint8_t list option \<Rightarrow> cv_Size \<Rightarrow> bool \<times> Point2f list) \<Rightarrow>
   CalibrationCornerFinderData \<Rightarrow> abort + CalibrationCornerFinderData" where
  "cornerFinder_job findChessboardCorners d =
     (case patternType d of
        CHESSBOARD \<Rightarrow>
          (case findChessboardCorners (videoFrame d) (patternSize d) of
             (found, cs) \<Rightarrow> Inr (d\<lparr>cornerFoundAllFlag := (if found then 1 else 0), corners := cs\<rparr>))
      | _ \<Rightarrow> Inl (Exit 0))"

text \<open>
  What \<^verbatim>\<open>frame()\<close> asks of its video source: the frame that
  \<^verbatim>\<open>checkoutFrameIfNewerThan\<close> hands out (its luma plane, or \<open>None\<close> for the null
  pointer that says there is no newer frame) and the dimensions.
\<close>

record ARVideoSource =
  checkoutFrameIfNewerThan :: "uint8_t list option"
  getVideoWidth :: int
  getVideoHeight :: int

text \<open>
  \<^verbatim>\<open>frame(vs)\<close>. The thread library is not part of this program, so the two answers it
  gives during the call are arguments: \<open>threadGetStatus\<close> (the worker has finished a
  job) and \<open>threadGetBusyStatus\<close> (asked after the results were copied). The result is
  the value returned, whether \<^verbatim>\<open>threadStartSignal\<close> was called, and the session.
  The byte count of the copy is the C int product of the source's dimensions, converted
  to \<^verbatim>\<open>size_t\<close>.
\<close>

definition frame ::
  "bool \<Rightarrow> bool \<Rightarrow> ARVideoSource \<Rightarrow> Calibration \<Rightarrow> abort + (bool \<times> bool \<times> Calibration)" where
  "frame threadGetStatus threadGetBusyStatus vs c =
     (case (if threadGetStatus
            then (case assign (m_cornerFinderResultData c) (m_cornerFinderData c) of
                    Inl a \<Rightarrow> Inl a
                  | Inr r \<Rightarrow> Inr (c\<lparr>m_cornerFinderResultData := r\<rparr>))
            else Inr c) of
        Inl a \<Rightarrow> Inl a
      | Inr c1 \<Rightarrow>
          if \<not> threadGetBusyStatus then
            (case checkoutFrameIfNewerThan vs of
               Some buffLuma \<Rightarrow>
                 (case memcpy (videoFrame (m_cornerFinderData c1)) (Some buffLuma)
                         (unat (word_of_int (c_int_mul (getVideoWidth vs) (getVideoHeight vs))
                                  :: size_t)) of
                    Inl a \<Rightarrow> Inl a
                  | Inr f \<Rightarrow>
                      Inr (True, True,
                           c1\<lparr>m_cornerFinderData := (m_cornerFinderData c1)\<lparr>videoFrame := f\<rparr>\<rparr>))
             | None \<Rightarrow> Inr (True, False, c1))
          else Inr (True, False, c1))"

subsection \<open>Sequences of calls on a session\<close>

text \<open>
  The calls that reach a session while it lives: the three operations of the flow
  controller, the frame cycle of the main loop, and a pass of the worker over
  \<open>m_cornerFinderData\<close>. A sequence of calls stops at the first one that does not return.
\<close>

datatype session_call =
  CallCapture | CallUncapture | CallUncaptureAll
  | CallFrame bool bool ARVideoSource
  | WorkerJob

fun call ::
  "(uint8_t list option \<Rightarrow> Point2f list \<Rightarrow> Point2f list) \<Rightarrow>
   (uint8_t list option \<Rightarrow> cv_Size \<Rightarrow> bool \<times> Point2f list) \<Rightarrow>
   session_call \<Rightarrow> Calibration \<Rightarrow> abort + Calibration" where
  "call cornerSubPix findChessboardCorners CallCapture c = Inr (snd (capture cornerSubPix c))"
| "call cornerSubPix findChessboardCorners CallUncapture c = Inr (snd (uncapture c))"
| "call cornerSubPix findChessboardCorners CallUncaptureAll c = Inr (snd (uncaptureAll c))"
| "call cornerSubPix findChessboardCorners (CallFrame status busy vs) c =
     (case frame status busy vs c of Inl a \<Rightarrow> Inl a | Inr (ret, started, c') \<Rightarrow> Inr c')"
| "call cornerSubPix findChessboardCorners WorkerJob c =
     (case cornerFinder_job findChessboardCorners (m_cornerFinderData c) of
        Inl a \<Rightarrow> Inl a
      | Inr d \<Rightarrow> Inr (c\<lparr>m_cornerFinderData := d\<rparr>))"

fun calls ::
  "(uint8_t list option \<Rightarrow> Point2f list \<Rightarrow> Point2f list) \<Rightarrow>
   (uint8_t list option \<Rightarrow> cv_Size \<Rightarrow> bool \<times> Point2f list) \<Rightarrow>
   session_call list \<Rightarrow> Calibration \<Rightarrow> abort + Calibration" where
  "calls cornerSubPix findChessboardCorners [] c = Inr c"
| "calls cornerSubPix findChessboardCorners (x # xs) c =
     (case call cornerSubPix findChessboardCorners x c of
        Inl a \<Rightarrow> Inl a
      | Inr c' \<Rightarrow> calls cornerSubPix findChessboardCorners xs c')"

subsection \<open>The buffer invariant\<close>

text \<open>
  What \<^verbatim>\<open>init()\<close> establishes for positive dimensions and every later call keeps: the
  pixel buffer exists and holds exactly as many bytes as \<^verbatim>\<open>init()\<close> asked for.
\<close>

definition frame_buffer_ok :: "CalibrationCornerFinderData \<Rightarrow> bool" where
  "frame_buffer_ok d =
     (0 < videoWidth d \<and> 0 < videoHeight d
      \<and> (case videoFrame d of
            Some buf \<Rightarrow> length buf = nat (c_int_mul (videoWidth d) (videoHeight d))
          | None \<Rightarrow> False))"

section \<open>The flow controller (flow.cpp)\<close>

subsection \<open>Events, states and globals\<close>

text \<open>
  Modelled from the spec: flow.hpp, which declares \<^verbatim>\<open>EVENT_t\<close> and \<^verbatim>\<open>FLOW_STATE\<close>, is
  not among the sources. The spec names the events NONE, TOUCH, BACK\_BUTTON and MODAL and
  the states WELCOME, CAPTURING, CALIBRATING, DONE and NOT\_INITED; flow.cpp combines events
  with \<^verbatim>\<open>|\<close> into masks and tests them with \<^verbatim>\<open>&\<close> against \<^verbatim>\<open>EVENT_NONE\<close>, so the
  events are distinct one-bit flags and \<^verbatim>\<open>EVENT_NONE\<close> is 0.
\<close>

type_synonym EVENT_t = "32 word"

definition EVENT_NONE :: EVENT_t where "EVENT_NONE = 0"
definition EVENT_TOUCH :: EVENT_t where "EVENT_TOUCH = 1"
definition EVENT_BACK_BUTTON :: EVENT_t where "EVENT_BACK_BUTTON = 2"
definition EVENT_MODAL :: EVENT_t where "EVENT_MODAL = 4"

datatype FLOW_STATE =
  FLOW_STATE_NOT_INITED | FLOW_STATE_WELCOME | FLOW_STATE_CAPTURING
  | FLOW_STATE_CALIBRATING | FLOW_STATE_DONE

text \<open>
  What \<^verbatim>\<open>calib()\<close> hands to the completion callback: the camera parameters and the
  minimum, average and maximum reprojection error.
\<close>

type_synonym outcome = "real list \<times> real \<times> real \<times> real"

text \<open>
  The calls of \<^verbatim>\<open>flowThread\<close> that another thread or the operator can observe, in the
  order in which they are made.
\<close>

datatype action =
  ActSetEventMask EVENT_t
  | ActStateSet FLOW_STATE
  | ActWaitForEvent EVENT_t
  | ActCapture bool
  | ActUncapture bool
  | ActUncaptureAll bool
  | ActCalib "Point2f list list" outcome
  | ActCallback outcome

text \<open>
  The places of \<^verbatim>\<open>flowThread\<close> between two of its calls, named after the call that
  comes next; the local \<^verbatim>\<open>event\<close> and the computed parameters travel with the place
  that reads them.
\<close>

datatype pc =
  Start | LoopTop | WelcomeWait | WelcomeGot EVENT_t | ModalWait
  | CaptureMask | CaptureWait | CaptureGot EVENT_t
  | CancelMask | CancelState | CancelWait | CancelGot
  | CalibMask | CalibState | Calib | Callback outcome | Reset
  | DoneMask | DoneState | DoneWait | DoneGot
  | Finished

text \<open>
  The globals of flow.cpp, the session \<^verbatim>\<open>gFlowCalib\<close> points to, and the state of
  \<^verbatim>\<open>flowThread\<close>: its local \<^verbatim>\<open>captureDoneSinceBackButtonLastPressed\<close>, its place and the
  calls it has made. \<open>gEventCond\<close> counts the calls of \<^verbatim>\<open>pthread_cond_signal\<close>;
  \<open>gCallback\<close> says whether the callback pointer is not null.
\<close>

record flow =
  gInited :: bool
  gState :: FLOW_STATE
  gEvent :: EVENT_t
  gEventMask :: EVENT_t
  gEventCond :: nat
  gStop :: bool
  gCallback :: bool
  gFlowCalib :: Calibration
  captureDoneSinceBackButtonLastPressed :: bool
  pc :: pc
  trace :: "action list"

subsection \<open>The functions of flow.cpp\<close>

text \<open>
  \<^verbatim>\<open>flowInitAndStart\<close>: the state in which the call has returned and the new thread has
  not made its first call yet.
\<close>

definition flowInitAndStart :: "Calibration \<Rightarrow> bool \<Rightarrow> flow" where
  "flowInitAndStart calib callback =
     \<lparr>gInited = True, gState = FLOW_STATE_NOT_INITED, gEvent = EVENT_NONE,
      gEventMask = EVENT_NONE, gEventCond = 0, gStop = False, gCallback = callback,
      gFlowCalib = calib, captureDoneSinceBackButtonLastPressed = False,
      pc = Start, trace = []\<rparr>"

definition flowStateGet :: "flow \<Rightarrow> FLOW_STATE" where
  "flowStateGet s = (if \<not> gInited s then FLOW_STATE_NOT_INITED else gState s)"

definition flowStateSet :: "FLOW_STATE \<Rightarrow> flow \<Rightarrow> flow" where
  "flowStateSet state s = (if \<not> gInited s then s else s\<lparr>gState := state\<rparr>)"

definition flowSetEventMask :: "EVENT_t \<Rightarrow> flow \<Rightarrow> flow" where
  "flowSetEventMask eventMask s = s\<lparr>gEventMask := eventMask\<rparr>"

text \<open>
  \<^verbatim>\<open>flowHandleEvent\<close>, one step under \<^verbatim>\<open>gEventLock\<close>: an event that has no bit in
  common with the mask is not stored; any other event replaces the stored one and the
  condition is signalled.
\<close>

definition flowHandleEvent :: "EVENT_t \<Rightarrow> flow \<Rightarrow> bool \<times> flow" where
  "flowHandleEvent ev s =
     (if \<not> gInited s then (False, s)
      else if ev AND gEventMask s = EVENT_NONE then (False, s)
      else (True, s\<lparr>gEvent := ev, gEventCond := gEventCond s + 1\<rparr>))"

text \<open>
  \<^verbatim>\<open>flowWaitForEvent\<close>: \<^verbatim>\<open>pthread_cond_wait\<close> gives up \<^verbatim>\<open>gEventLock\<close> while it waits
  and holds it again when the loop condition is read, so the call returns from a state
  in which an event is stored or the stop flag is set, takes the event and clears it.
  \<open>None\<close>: the caller keeps waiting.
\<close>

definition flowWaitForEvent :: "flow \<Rightarrow> (EVENT_t \<times> flow) option" where
  "flowWaitForEvent s =
     (if gEvent s = EVENT_NONE \<and> \<not> gStop s then None
      else Some (gEvent s, s\<lparr>gEvent := EVENT_NONE\<rparr>))"

text \<open>Events posted one after the other, as the main loop does for its key presses.\<close>

fun flowHandleEvents :: "EVENT_t list \<Rightarrow> flow \<Rightarrow> flow" where
  "flowHandleEvents [] s = s"
| "flowHandleEvents (ev # evs) s = flowHandleEvents evs (snd (flowHandleEvent ev s))"

subsection \<open>The flow thread, call by call\<close>

definition record_call :: "action \<Rightarrow> flow \<Rightarrow> flow" where
  "record_call a s = s\<lparr>trace := trace s @ [a]\<rparr>"

text \<open>What follows a call of \<^verbatim>\<open>flowWaitForEvent\<close> that returned \<open>ev\<close>.\<close>

definition wait_then :: "(EVENT_t \<Rightarrow> pc) \<Rightarrow> flow \<Rightarrow> flow" where
  "wait_then k s =
     (case flowWaitForEvent s of
        None \<Rightarrow> s
      | Some (ev, s') \<Rightarrow> record_call (ActWaitForEvent ev) (s'\<lparr>pc := k ev\<rparr>))"

text \<open>
  The test after the capture loop (line 289): fewer sets than the maximum means the run was
  cancelled, otherwise the parameters are computed. Both counts are C ints.
\<close>

definition after_loop :: "flow \<Rightarrow> flow" where
  "after_loop s =
     (if sint (calibImageCount (gFlowCalib s)) < sint (calibImageCountMax (gFlowCalib s))
      then s\<lparr>pc := CancelMask\<rparr> else s\<lparr>pc := CalibMask\<rparr>)"

text \<open>The condition of the \<^verbatim>\<open>do ... while\<close> (line 284).\<close>

definition loop_test :: "flow \<Rightarrow> flow" where
  "loop_test s =
     (if sint (calibImageCount (gFlowCalib s)) < sint (calibImageCountMax (gFlowCalib s))
      then s\<lparr>pc := CaptureWait\<rparr> else after_loop s)"

text \<open>
  One step of \<^verbatim>\<open>flowThread\<close>: the next call that takes a lock or enters the session,
  with the reads of \<^verbatim>\<open>gStop\<close> and of the counts that stand next to it. A thread that
  waits in \<^verbatim>\<open>flowWaitForEvent\<close>, or has ended, stays as it is. \<^verbatim>\<open>calc\<close> (calc.hpp, not
  among the sources) is a parameter that gives the outcome for a session.
\<close>

fun step_at ::
  "(uint8_t list option \<Rightarrow> Point2f list \<Rightarrow> Point2f list) \<Rightarrow> (Calibration \<Rightarrow> outcome) \<Rightarrow>
   pc \<Rightarrow> flow \<Rightarrow> flow" where
  "step_at cornerSubPix calc Start s =
     record_call (ActStateSet FLOW_STATE_WELCOME) ((flowStateSet FLOW_STATE_WELCOME s)\<lparr>pc := LoopTop\<rparr>)"
| "step_at cornerSubPix calc LoopTop s =
     (if gStop s then s\<lparr>pc := Finished\<rparr>
      else record_call (ActSetEventMask (EVENT_TOUCH OR EVENT_MODAL))
             ((flowSetEventMask (EVENT_TOUCH OR EVENT_MODAL) s)\<lparr>pc := WelcomeWait\<rparr>))"
| "step_at cornerSubPix calc WelcomeWait s = wait_then WelcomeGot s"
| "step_at cornerSubPix calc (WelcomeGot ev) s =
     (if gStop s then s\<lparr>pc := Finished\<rparr>
      else if ev = EVENT_MODAL
      then record_call (ActSetEventMask EVENT_MODAL)
             ((flowSetEventMask EVENT_MODAL s)\<lparr>pc := ModalWait\<rparr>)
      else record_call (ActStateSet FLOW_STATE_CAPTURING)
             ((flowStateSet FLOW_STATE_CAPTURING s)
                \<lparr>captureDoneSinceBackButtonLastPressed := False, pc := CaptureMask\<rparr>))"
| "step_at cornerSubPix calc ModalWait s = wait_then (\<lambda>ev. LoopTop) s"
| "step_at cornerSubPix calc CaptureMask s =
     record_call (ActSetEventMask (EVENT_TOUCH OR EVENT_BACK_BUTTON))
       ((flowSetEventMask (EVENT_TOUCH OR EVENT_BACK_BUTTON) s)\<lparr>pc := CaptureWait\<rparr>)"
| "step_at cornerSubPix calc CaptureWait s = wait_then CaptureGot s"
| "step_at cornerSubPix calc (CaptureGot ev) s =
     (if gStop s then after_loop s
      else if ev = EVENT_TOUCH then
        (case capture cornerSubPix (gFlowCalib s) of
           (ok, c) \<Rightarrow>
             loop_test (record_call (ActCapture ok)
               (s\<lparr>gFlowCalib := c,
                   captureDoneSinceBackButtonLastPressed :=
                     (if ok then True else captureDoneSinceBackButtonLastPressed s)\<rparr>)))
      else if ev = EVENT_BACK_BUTTON then
        (if \<not> captureDoneSinceBackButtonLastPressed s then
           (case uncaptureAll (gFlowCalib s) of
              (ok, c) \<Rightarrow> after_loop (record_call (ActUncaptureAll ok) (s\<lparr>gFlowCalib := c\<rparr>)))
         else
           (case uncapture (gFlowCalib s) of
              (ok, c) \<Rightarrow>
                loop_test (record_call (ActUncapture ok)
                  (s\<lparr>gFlowCalib := c, captureDoneSinceBackButtonLastPressed := False\<rparr>))))
      else loop_test s)"
| "step_at cornerSubPix calc CancelMask s =
     record_call (ActSetEventMask EVENT_TOUCH) ((flowSetEventMask EVENT_TOUCH s)\<lparr>pc := CancelState\<rparr>)"
| "step_at cornerSubPix calc CancelState s =
     record_call (ActStateSet FLOW_STATE_DONE) ((flowStateSet FLOW_STATE_DONE s)\<lparr>pc := CancelWait\<rparr>)"
| "step_at cornerSubPix calc CancelWait s = wait_then (\<lambda>ev. CancelGot) s"
| "step_at cornerSubPix calc CancelGot s =
     (if gStop s then s\<lparr>pc := Finished\<rparr> else s\<lparr>pc := LoopTop\<rparr>)"
| "step_at cornerSubPix calc CalibMask s =
     record_call (ActSetEventMask EVENT_NONE) ((flowSetEventMask EVENT_NONE s)\<lparr>pc := CalibState\<rparr>)"
| "step_at cornerSubPix calc CalibState s =
     record_call (ActStateSet FLOW_STATE_CALIBRATING)
       ((flowStateSet FLOW_STATE_CALIBRATING s)\<lparr>pc := Calib\<rparr>)"
| "step_at cornerSubPix calc Calib s =
     record_call (ActCalib (m_corners (gFlowCalib s)) (calc (gFlowCalib s)))
       (s\<lparr>pc := Callback (calc (gFlowCalib s))\<rparr>)"
| "step_at cornerSubPix calc (Callback out) s =
     (if gCallback s then record_call (ActCallback out) (s\<lparr>pc := Reset\<rparr>) else s\<lparr>pc := Reset\<rparr>)"
| "step_at cornerSubPix calc Reset s =
     (case uncaptureAll (gFlowCalib s) of
        (ok, c) \<Rightarrow> record_call (ActUncaptureAll ok) (s\<lparr>gFlowCalib := c, pc := DoneMask\<rparr>))"
| "step_at cornerSubPix calc DoneMask s =
     record_call (ActSetEventMask EVENT_TOUCH) ((flowSetEventMask EVENT_TOUCH s)\<lparr>pc := DoneState\<rparr>)"
| "step_at cornerSubPix calc DoneState s =
     record_call (ActStateSet FLOW_STATE_DONE) ((flowStateSet FLOW_STATE_DONE s)\<lparr>pc := DoneWait\<rparr>)"
| "step_at cornerSubPix calc DoneWait s = wait_then (\<lambda>ev. DoneGot) s"
| "step_at cornerSubPix calc DoneGot s =
     (if gStop s then s\<lparr>pc := Finished\<rparr> else s\<lparr>pc := LoopTop\<rparr>)"
| "step_at cornerSubPix calc Finished s = s"

definition flowThread_step ::
  "(uint8_t list option \<Rightarrow> Point2f list \<Rightarrow> Point2f list) \<Rightarrow> (Calibration \<Rightarrow> outcome) \<Rightarrow>
   flow \<Rightarrow> flow" where
  "flowThread_step cornerSubPix calc s = step_at cornerSubPix calc (pc s) s"

subsection \<open>The other threads\<close>

text \<open>
  What the rest of the program does to the same state between two steps of the flow
  thread: the main loop posts an event, runs a frame cycle on the session or asks the
  thread to stop (the assignment \<^verbatim>\<open>gStop = true\<close> of \<^verbatim>\<open>flowStopAndFinal\<close>), and the
  worker makes a pass over the session's data.
\<close>

datatype env = HandleEvent EVENT_t | FrameCycle bool bool ARVideoSource | WorkerPass | RequestStop

fun env_step ::
  "(uint8_t list option \<Rightarrow> cv_Size \<Rightarrow> bool \<times> Point2f list) \<Rightarrow> env \<Rightarrow> flow \<Rightarrow> abort + flow" where
  "env_step findChessboardCorners (HandleEvent ev) s = Inr (snd (flowHandleEvent ev s))"
| "env_step findChessboardCorners (FrameCycle status busy vs) s =
     (case frame status busy vs (gFlowCalib s) of
        Inl a \<Rightarrow> Inl a
      | Inr (ret, started, c) \<Rightarrow> Inr (s\<lparr>gFlowCalib := c\<rparr>))"
| "env_step findChessboardCorners WorkerPass s =
     (case cornerFinder_job findChessboardCorners (m_cornerFinderData (gFlowCalib s)) of
        Inl a \<Rightarrow> Inl a
      | Inr d \<Rightarrow> Inr (s\<lparr>gFlowCalib := (gFlowCalib s)\<lparr>m_cornerFinderData := d\<rparr>\<rparr>))"
| "env_step findChessboardCorners RequestStop s = Inr (s\<lparr>gStop := True\<rparr>)"

text \<open>
  A schedule says who moves next: the flow thread or one of the others. The run ends
  where a call ends the process.
\<close>

datatype sched = Thread | Env env

fun exec ::
  "(uint8_t list option \<Rightarrow> Point2f list \<Rightarrow> Point2f list) \<Rightarrow>
   (uint8_t list option \<Rightarrow> cv_Size \<Rightarrow> bool \<times> Point2f list) \<Rightarrow>
   (Calibration \<Rightarrow> outcome) \<Rightarrow> sched list \<Rightarrow> flow \<Rightarrow> abort + flow" where
  "exec cornerSubPix findChessboardCorners calc [] s = Inr s"
| "exec cornerSubPix findChessboardCorners calc (Thread # xs) s =
     exec cornerSubPix findChessboardCorners calc xs (flowThread_step cornerSubPix calc s)"
| "exec cornerSubPix findChessboardCorners calc (Env e # xs) s =
     (case env_step findChessboardCorners e s of
        Inl a \<Rightarrow> Inl a
      | Inr s' \<Rightarrow> exec cornerSubPix findChessboardCorners calc xs s')"

subsection \<open>What the other threads can have done\<close>

text \<open>
  The relation between a state and a later one when only the other threads have moved:
  the place, the calls made, the local flag, the state, the mask, the callback and the
  captured sets of the session are as they were; the stored event is as it was or is one
  that the mask admits; a stop request stays.
\<close>

definition interference :: "flow \<Rightarrow> flow \<Rightarrow> bool" where
  "interference s u =
     (pc u = pc s \<and> trace u = trace s
      \<and> captureDoneSinceBackButtonLastPressed u = captureDoneSinceBackButtonLastPressed s
      \<and> gState u = gState s \<and> gEventMask u = gEventMask s \<and> gCallback u = gCallback s
      \<and> gInited u = gInited s
      \<and> m_corners (gFlowCalib u) = m_corners (gFlowCalib s)
      \<and> m_calibImageCountMax (gFlowCalib u) = m_calibImageCountMax (gFlowCalib s)
      \<and> (gEvent u = gEvent s \<or> gEvent u AND gEventMask s \<noteq> EVENT_NONE)
      \<and> (gStop s \<longrightarrow> gStop u))"

subsection \<open>An invariant of the flow thread\<close>

text \<open>
  For a session with a positive maximum: the controller is initialised, the captured sets
  are no more than the maximum, and in the capture loop the state is CAPTURING and the
  local flag, when set, says that a captured set is there to undo.
\<close>

definition flow_inv :: "flow \<Rightarrow> bool" where
  "flow_inv s =
     (gInited s
      \<and> 0 < sint (m_calibImageCountMax (gFlowCalib s))
      \<and> length (m_corners (gFlowCalib s)) \<le> nat (sint (m_calibImageCountMax (gFlowCalib s)))
      \<and> (case pc s of
            CaptureMask \<Rightarrow>
              gState s = FLOW_STATE_CAPTURING \<and> \<not> captureDoneSinceBackButtonLastPressed s
          | CaptureWait \<Rightarrow>
              gState s = FLOW_STATE_CAPTURING
              \<and> (captureDoneSinceBackButtonLastPressed s \<longrightarrow> m_corners (gFlowCalib s) \<noteq> [])
          | CaptureGot ev \<Rightarrow>
              gState s = FLOW_STATE_CAPTURING
              \<and> (captureDoneSinceBackButtonLastPressed s \<longrightarrow> m_corners (gFlowCalib s) \<noteq> [])
          | _ \<Rightarrow> True))"

section \<open>Auxiliary facts\<close>

subsection \<open>Conversions between int and size\_t\<close>

lemma uint_scast: "uint (scast (m :: c_int) :: size_t) = sint m mod 2 ^ 64"
  using uint_word_of_int [of "sint m", where 'a = 64] by simp

lemma scast_nonneg: "0 \<le> sint (m :: c_int) \<Longrightarrow> unat (scast m :: size_t) = nat (sint m)"
proof -
  assume h: "0 \<le> sint m"
  have b: "sint m < 2 ^ 31" using sint_lt [of m] by simp
  have "sint m mod 2 ^ 64 = sint m" using h b by simp
  then show ?thesis using uint_scast [of m] by (simp only: unat_eq_nat_uint)
qed

lemma scast_neg: "sint (m :: c_int) < 0 \<Longrightarrow> 2 ^ 31 \<le> unat (scast m :: size_t)"
proof -
  assume h: "sint m < 0"
  have b: "- (2 ^ 31) \<le> sint m" using sint_ge [of m] by simp
  have "(sint m + 2 ^ 64) mod 2 ^ 64 = sint m + 2 ^ 64" using h b
    by (intro mod_pos_pos_trivial) simp_all
  moreover have "(sint m + 2 ^ 64) mod 2 ^ 64 = sint m mod 2 ^ 64"
    by (rule mod_add_self2)
  ultimately have "sint m mod 2 ^ 64 = sint m + 2 ^ 64" by simp
  then have "2147483648 \<le> uint (scast m :: size_t)" using b uint_scast [of m] by simp
  then have "(2147483648 :: nat) \<le> nat (uint (scast m :: size_t))" by linarith
  then show ?thesis by simp
qed

lemma sint_of_nat: "n < 2 ^ 31 \<Longrightarrow> sint (word_of_nat n :: c_int) = int n"
proof -
  assume "n < 2 ^ 31"
  then have "int n < 2 ^ 31" by (metis of_nat_less_numeral_power_cancel_iff)
  then have "signed_take_bit 31 (int n) = int n"
    by (intro signed_take_bit_int_eq_self) simp_all
  then show ?thesis by (simp add: signed_of_nat)
qed


lemma unat_size_le: "0 \<le> k \<Longrightarrow> unat (word_of_int k :: size_t) \<le> nat k"
proof -
  assume h: "0 \<le> k"
  have "uint (word_of_int k :: size_t) = k mod 2 ^ 64"
    using uint_word_of_int [of k, where 'a = 64] by simp
  moreover have "k mod 2 ^ 64 \<le> k" using h by (rule zmod_le_nonneg_dividend)
  ultimately have "nat (uint (word_of_int k :: size_t)) \<le> nat k" by simp
  then show ?thesis by simp
qed

lemma unat_size_eq: "0 \<le> k \<Longrightarrow> k < 2 ^ 64 \<Longrightarrow> unat (word_of_int k :: size_t) = nat k"
proof -
  assume h: "0 \<le> k" "k < 2 ^ 64"
  have "uint (word_of_int k :: size_t) = k mod 2 ^ 64"
    using uint_word_of_int [of k, where 'a = 64] by simp
  moreover have "k mod 2 ^ 64 = k" using h by simp
  ultimately have "nat (uint (word_of_int k :: size_t)) = nat k" by simp
  then show ?thesis by simp
qed

lemma c_int_mul_exact: "0 \<le> a * b \<Longrightarrow> a * b < 2 ^ 31 \<Longrightarrow> c_int_mul a b = a * b"
proof -
  assume h: "0 \<le> a * b" "a * b < 2 ^ 31"
  have "signed_take_bit 31 (a * b) = a * b"
    using h by (intro signed_take_bit_int_eq_self) simp_all
  moreover have "(word_of_int a * word_of_int b :: c_int) = word_of_int (a * b)" by simp
  ultimately show ?thesis by (simp only: c_int_mul_def signed_of_int) simp
qed

lemma c_int_mul_lt: "c_int_mul a b < 2 ^ 31"
  using sint_lt [of "word_of_int a * word_of_int b :: c_int"] by (simp add: c_int_mul_def)

subsection \<open>What the calls keep\<close>

lemma frame_effect:
  "frame s b vs c = Inr (r, st, c') \<Longrightarrow>
     r \<and> m_corners c' = m_corners c \<and> m_calibImageCountMax c' = m_calibImageCountMax c"
  by (auto simp: frame_def split: if_splits sum.splits option.splits)

lemma call_max:
  "call R D x c = Inr c' \<Longrightarrow> m_calibImageCountMax c' = m_calibImageCountMax c"
  by (cases x)
     (auto simp: capture_def uncapture_def uncaptureAll_def Let_def
           dest: frame_effect split: if_splits sum.splits prod.splits)

lemma call_bound:
  assumes "0 \<le> sint (m_calibImageCountMax c)"
    and "length (m_corners c) \<le> nat (sint (m_calibImageCountMax c))"
    and "call R D x c = Inr c'"
  shows "length (m_corners c') \<le> nat (sint (m_calibImageCountMax c))"
  using assms
  by (cases x)
     (auto simp: capture_def uncapture_def uncaptureAll_def Let_def scast_nonneg
           dest: frame_effect split: if_splits sum.splits prod.splits)

lemma calls_bound:
  assumes "calls R D xs c = Inr c'"
    and "0 \<le> sint (m_calibImageCountMax c)"
    and "length (m_corners c) \<le> nat (sint (m_calibImageCountMax c))"
  shows "m_calibImageCountMax c' = m_calibImageCountMax c
         \<and> length (m_corners c') \<le> nat (sint (m_calibImageCountMax c))"
  using assms
proof (induction xs arbitrary: c)
  case Nil
  then show ?case by simp
next
  case (Cons x xs)
  from Cons.prems(1) obtain c1 where c1: "call R D x c = Inr c1" and r: "calls R D xs c1 = Inr c'"
    by (auto split: sum.splits)
  have m: "m_calibImageCountMax c1 = m_calibImageCountMax c" using c1 by (rule call_max)
  have b: "length (m_corners c1) \<le> nat (sint (m_calibImageCountMax c))"
    using Cons.prems(2,3) c1 by (rule call_bound)
  show ?case using Cons.IH [OF r] m b Cons.prems(2) by simp
qed


lemma new_session:
  "m_corners (Calibration_new pt n sz sq w h) = []
   \<and> m_calibImageCountMax (Calibration_new pt n sz sq w h) = n"
  by (simp add: Calibration_new_def)

lemma reachable_bound:
  assumes "0 \<le> sint n" and "calls R D xs (Calibration_new pt n sz sq w h) = Inr c"
  shows "m_calibImageCountMax c = n \<and> length (m_corners c) \<le> nat (sint n)"
  using calls_bound [OF assms(2)] assms(1) by (simp add: new_session)

lemma calls_max:
  "calls R D xs c = Inr c' \<Longrightarrow> m_calibImageCountMax c' = m_calibImageCountMax c"
proof (induction xs arbitrary: c)
  case Nil
  then show ?case by simp
next
  case (Cons x xs)
  then show ?case by (auto split: sum.splits dest: call_max)
qed

lemma memcpy_ok:
  assumes "length d = m" and "n \<le> m" and "n \<le> length s"
  shows "\<exists>f. memcpy (Some d) (Some s) n = Inr (Some f) \<and> length f = m"
  using assms by (auto simp: memcpy_def)

lemma memcpy_length:
  "memcpy (Some d) src n = Inr f \<Longrightarrow> \<exists>buf. f = Some buf \<and> length buf = length d"
  by (auto simp: memcpy_def split: if_splits option.splits)

lemma new_ok:
  "0 < w \<Longrightarrow> 0 < h \<Longrightarrow>
     frame_buffer_ok (m_cornerFinderData (Calibration_new pt n sz sq w h))
     \<and> videoWidth (m_cornerFinderData (Calibration_new pt n sz sq w h)) = w
     \<and> videoHeight (m_cornerFinderData (Calibration_new pt n sz sq w h)) = h"
  by (simp add: frame_buffer_ok_def Calibration_new_def CalibrationCornerFinderData_new_def init_def)

lemma frame_data:
  assumes "frame s b vs c = Inr (r, st, c')"
  shows "m_cornerFinderData c' =
           (m_cornerFinderData c)\<lparr>videoFrame := videoFrame (m_cornerFinderData c')\<rparr>
         \<and> (videoFrame (m_cornerFinderData c') = videoFrame (m_cornerFinderData c)
              \<or> (\<exists>l n. memcpy (videoFrame (m_cornerFinderData c)) (Some l) n
                          = Inr (videoFrame (m_cornerFinderData c'))))"
  using assms
  by (auto simp: frame_def split: if_splits sum.splits option.splits)

lemma call_ok:
  assumes "frame_buffer_ok (m_cornerFinderData c)" and "call R D x c = Inr c'"
  shows "frame_buffer_ok (m_cornerFinderData c')
         \<and> videoWidth (m_cornerFinderData c') = videoWidth (m_cornerFinderData c)
         \<and> videoHeight (m_cornerFinderData c') = videoHeight (m_cornerFinderData c)"
proof (cases x)
  case CallCapture
  then show ?thesis using assms by (auto simp: capture_def Let_def)
next
  case CallUncapture
  then show ?thesis using assms by (auto simp: uncapture_def)
next
  case CallUncaptureAll
  then show ?thesis using assms by (auto simp: uncaptureAll_def)
next
  case (CallFrame s b vs)
  with assms(2) obtain r st where f: "frame s b vs c = Inr (r, st, c')"
    by (auto split: sum.splits)
  define fr where "fr = videoFrame (m_cornerFinderData c')"
  from frame_data [OF f] have
    d: "m_cornerFinderData c' = (m_cornerFinderData c)\<lparr>videoFrame := fr\<rparr>"
    and m: "fr = videoFrame (m_cornerFinderData c)
            \<or> (\<exists>l n. memcpy (videoFrame (m_cornerFinderData c)) (Some l) n = Inr fr)"
    unfolding fr_def by blast+
  from assms(1) obtain buf where
    b: "videoFrame (m_cornerFinderData c) = Some buf"
       "length buf =
          nat (c_int_mul (videoWidth (m_cornerFinderData c)) (videoHeight (m_cornerFinderData c)))"
    by (auto simp: frame_buffer_ok_def split: option.splits)
  from m b have "\<exists>buf'. fr = Some buf' \<and> length buf' = length buf"
    by (auto dest: memcpy_length)
  then show ?thesis using assms(1) d b by (auto simp: frame_buffer_ok_def)
next
  case WorkerJob
  with assms(2) obtain d where
    j: "cornerFinder_job D (m_cornerFinderData c) = Inr d" and c': "c' = c\<lparr>m_cornerFinderData := d\<rparr>"
    by (auto split: sum.splits)
  from j have "videoFrame d = videoFrame (m_cornerFinderData c)
      \<and> videoWidth d = videoWidth (m_cornerFinderData c)
      \<and> videoHeight d = videoHeight (m_cornerFinderData c)"
    by (auto simp: cornerFinder_job_def split: CalibrationPatternType.splits prod.splits)
  then show ?thesis using assms(1) c' by (auto simp: frame_buffer_ok_def split: option.splits)
qed

lemma calls_ok:
  assumes "calls R D xs c = Inr c'" and "frame_buffer_ok (m_cornerFinderData c)"
  shows "frame_buffer_ok (m_cornerFinderData c')
         \<and> videoWidth (m_cornerFinderData c') = videoWidth (m_cornerFinderData c)
         \<and> videoHeight (m_cornerFinderData c') = videoHeight (m_cornerFinderData c)"
  using assms
proof (induction xs arbitrary: c)
  case Nil
  then show ?case by simp
next
  case (Cons x xs)
  from Cons.prems(1) obtain c1 where c1: "call R D x c = Inr c1" and r: "calls R D xs c1 = Inr c'"
    by (auto split: sum.splits)
  from call_ok [OF Cons.prems(2) c1] Cons.IH [OF r] show ?case by simp
qed

lemma assign_ok:
  assumes "frame_buffer_ok orig" and small: "videoWidth orig * videoHeight orig < 2 ^ 31"
  shows "\<exists>buf. assign this orig = Inr (orig\<lparr>videoFrame := Some buf\<rparr>)"
proof -
  let ?w = "videoWidth orig" and ?h = "videoHeight orig"
  from assms(1) obtain s where s0: "videoFrame orig = Some s" "length s = nat (c_int_mul ?w ?h)"
    and p: "0 < ?w" "0 < ?h"
    by (auto simp: frame_buffer_ok_def split: option.splits)
  have cm: "c_int_mul ?w ?h = ?w * ?h" using p small by (intro c_int_mul_exact) simp_all
  have s: "videoFrame orig = Some s" "length s = nat (?w * ?h)" using s0 cm by simp_all
  have n: "unat (1 * word_of_int ?w * word_of_int ?h :: size_t) \<le> nat (?w * ?h)"
    using unat_size_le [of "?w * ?h"] p by simp
  from memcpy_ok [of "replicate (nat (?w * ?h)) 0" "nat (?w * ?h)" _ s, OF _ n] s n
  obtain f where "memcpy (Some (replicate (nat (?w * ?h)) 0)) (Some s)
                    (unat (1 * word_of_int ?w * word_of_int ?h :: size_t)) = Inr (Some f)"
    by auto
  then have "assign this orig = Inr (orig\<lparr>videoFrame := Some f\<rparr>)"
    using p s by (auto simp: assign_def init_def copy_def cm intro!: CalibrationCornerFinderData.equality)
  then show ?thesis by blast
qed

lemma frame_total:
  assumes ok: "frame_buffer_ok (m_cornerFinderData c)"
    and small: "videoWidth (m_cornerFinderData c) * videoHeight (m_cornerFinderData c) < 2 ^ 31"
    and w: "getVideoWidth vs = videoWidth (m_cornerFinderData c)"
    and h: "getVideoHeight vs = videoHeight (m_cornerFinderData c)"
    and l: "\<And>l. checkoutFrameIfNewerThan vs = Some l \<Longrightarrow>
               nat (getVideoWidth vs * getVideoHeight vs) \<le> length l"
  shows "\<exists>st c'. frame s b vs c = Inr (True, st, c')"
proof -
  let ?d = "m_cornerFinderData c"
  let ?n = "unat (word_of_int (c_int_mul (getVideoWidth vs) (getVideoHeight vs)) :: size_t)"
  from ok obtain buf where buf0: "videoFrame ?d = Some buf"
     "length buf = nat (c_int_mul (videoWidth ?d) (videoHeight ?d))"
    and p: "0 < videoWidth ?d" "0 < videoHeight ?d"
    by (auto simp: frame_buffer_ok_def split: option.splits)
  have cm: "c_int_mul (videoWidth ?d) (videoHeight ?d) = videoWidth ?d * videoHeight ?d"
    using p small by (intro c_int_mul_exact) simp_all
  have buf: "videoFrame ?d = Some buf" "length buf = nat (videoWidth ?d * videoHeight ?d)"
    using buf0 cm by simp_all
  have n: "?n \<le> nat (videoWidth ?d * videoHeight ?d)"
    using unat_size_le [of "videoWidth ?d * videoHeight ?d"] p w h cm by simp
  have cp: "\<exists>f. memcpy (videoFrame ?d) (Some lu) ?n = Inr f"
    if "checkoutFrameIfNewerThan vs = Some lu" for lu
  proof -
    have "?n \<le> length lu" using l [OF that] n w h by simp
    from memcpy_ok [OF buf(2) n this] show ?thesis using buf(1) by auto
  qed
  show ?thesis
  proof (cases s)
    case True
    from assign_ok [OF ok small] obtain rb where
      a: "assign (m_cornerFinderResultData c) ?d = Inr (?d\<lparr>videoFrame := Some rb\<rparr>)" by blast
    show ?thesis
    proof (cases "checkoutFrameIfNewerThan vs")
      case None
      then show ?thesis using True a by (auto simp: frame_def)
    next
      case (Some lu)
      from cp [OF Some] obtain f where "memcpy (videoFrame ?d) (Some lu) ?n = Inr f" by blast
      then show ?thesis using True a Some by (auto simp: frame_def)
    qed
  next
    case False
    show ?thesis
    proof (cases "checkoutFrameIfNewerThan vs")
      case None
      then show ?thesis using False by (auto simp: frame_def)
    next
      case (Some lu)
      from cp [OF Some] obtain f where "memcpy (videoFrame ?d) (Some lu) ?n = Inr f" by blast
      then show ?thesis using False Some by (auto simp: frame_def)
    qed
  qed
qed

lemma assign_fields:
  "assign this orig = Inr r \<Longrightarrow> r\<lparr>videoFrame := videoFrame orig\<rparr> = orig"
  by (auto simp: assign_def copy_def init_def split: sum.splits if_splits
           intro!: CalibrationCornerFinderData.equality)

lemma assign_exact:
  assumes "frame_buffer_ok orig" and "videoWidth orig * videoHeight orig < 2 ^ 31"
    and "assign this orig = Inr r"
  shows "r = orig"
proof -
  let ?w = "videoWidth orig" and ?h = "videoHeight orig"
  from assms(1) obtain s where s0: "videoFrame orig = Some s" "length s = nat (c_int_mul ?w ?h)"
    and p: "0 < ?w" "0 < ?h"
    by (auto simp: frame_buffer_ok_def split: option.splits)
  have cm: "c_int_mul ?w ?h = ?w * ?h" using p assms(2) by (intro c_int_mul_exact) simp_all
  have s: "videoFrame orig = Some s" "length s = nat (?w * ?h)" using s0 cm by simp_all
  have "?w * ?h < 2 ^ 64" using assms(2) by simp
  then have n: "unat (1 * word_of_int ?w * word_of_int ?h :: size_t) = nat (?w * ?h)"
    using unat_size_eq [of "?w * ?h"] p by simp
  have "memcpy (Some (replicate (nat (?w * ?h)) 0)) (Some s) (nat (?w * ?h)) = Inr (Some s)"
    using s by (cases "nat (?w * ?h) = 0") (auto simp: memcpy_def)
  then have "videoFrame r = videoFrame orig"
    using assms(3) p s n by (auto simp: assign_def init_def copy_def cm simp del: mult_1_left)
  then show ?thesis using assign_fields [OF assms(3)]
    by (metis CalibrationCornerFinderData.surjective CalibrationCornerFinderData.update_convs(5))
qed

lemma assign_faults:
  assumes "frame_buffer_ok orig" and big: "2 ^ 31 \<le> videoWidth orig * videoHeight orig"
    and lim: "videoWidth orig * videoHeight orig < 2 ^ 64"
  shows "assign this orig = Inl MemoryFault"
proof -
  let ?w = "videoWidth orig" and ?h = "videoHeight orig"
  let ?n = "unat (1 * word_of_int ?w * word_of_int ?h :: size_t)"
  from assms(1) obtain s where s: "videoFrame orig = Some s" and p: "0 < ?w" "0 < ?h"
    by (auto simp: frame_buffer_ok_def split: option.splits)
  have "0 \<le> ?w * ?h" using big by simp
  then have n: "?n = nat (?w * ?h)" using unat_size_eq [of "?w * ?h"] lim by simp
  have lt: "c_int_mul ?w ?h < ?w * ?h"
    by (rule order.strict_trans2 [OF c_int_mul_lt big])
  have pos: "0 < ?w * ?h" using p by simp
  have g: "nat (c_int_mul ?w ?h) < ?n" "?n \<noteq> 0"
    using lt pos by (simp_all only: n zless_nat_conj nat_eq_iff2)
  have "memcpy (Some (replicate (nat (c_int_mul ?w ?h)) 0)) (Some s) ?n = Inl MemoryFault"
    using g by (simp add: memcpy_def)
  then show ?thesis using p s by (simp add: assign_def init_def copy_def del: mult_1_left)
qed

subsection \<open>Schedules\<close>

lemma exec_append:
  "exec R D K (a @ b) s = (case exec R D K a s of Inl x \<Rightarrow> Inl x | Inr t \<Rightarrow> exec R D K b t)"
proof (induction a arbitrary: s)
  case Nil
  then show ?case by simp
next
  case (Cons x a)
  then show ?case by (cases x) (auto split: sum.splits)
qed

lemma split_first_thread:
  "count_list sch Thread = Suc n \<Longrightarrow>
     \<exists>E rest. sch = E @ Thread # rest \<and> Thread \<notin> set E \<and> count_list rest Thread = n"
proof (induction sch)
  case Nil
  then show ?case by simp
next
  case (Cons x sch)
  show ?case
  proof (cases "x = Thread")
    case True
    with Cons.prems have "x # sch = [] @ Thread # sch \<and> Thread \<notin> set [] \<and> count_list sch Thread = n"
      by simp
    then show ?thesis by blast
  next
    case False
    with Cons.prems have "count_list sch Thread = Suc n" by simp
    from Cons.IH [OF this] obtain E rest where
      "sch = E @ Thread # rest" "Thread \<notin> set E" "count_list rest Thread = n" by blast
    with False have "x # sch = (x # E) @ Thread # rest \<and> Thread \<notin> set (x # E)
        \<and> count_list rest Thread = n" by simp
    then show ?thesis by blast
  qed
qed

lemma interference_refl: "interference s s"
  by (simp add: interference_def)

lemma interference_trans:
  "interference s t \<Longrightarrow> interference t u \<Longrightarrow> interference s u"
  by (auto simp: interference_def)

lemma env_step_interference:
  "env_step D e s = Inr u \<Longrightarrow> interference s u"
proof (cases e)
  case (HandleEvent ev)
  assume "env_step D e s = Inr u"
  with HandleEvent show ?thesis
    by (auto simp: interference_def flowHandleEvent_def split: if_splits)
next
  case (FrameCycle st b vs)
  assume "env_step D e s = Inr u"
  with FrameCycle obtain r sg c where f: "frame st b vs (gFlowCalib s) = Inr (r, sg, c)"
    and u: "u = s\<lparr>gFlowCalib := c\<rparr>"
    by (auto split: sum.splits)
  from frame_effect [OF f] u show ?thesis by (simp add: interference_def)
next
  case WorkerPass
  assume "env_step D e s = Inr u"
  with WorkerPass show ?thesis
    by (auto simp: interference_def split: sum.splits)
next
  case RequestStop
  assume "env_step D e s = Inr u"
  with RequestStop show ?thesis by (auto simp: interference_def)
qed

lemma env_only:
  "Thread \<notin> set E \<Longrightarrow> exec R D K E s = Inr u \<Longrightarrow> interference s u"
proof (induction E arbitrary: s)
  case Nil
  then show ?case by (simp add: interference_refl)
next
  case (Cons x E)
  from Cons.prems(1) obtain e where x: "x = Env e" by (cases x) auto
  with Cons.prems(2) obtain t where t: "env_step D e s = Inr t" and r: "exec R D K E t = Inr u"
    by (auto split: sum.splits)
  from Cons.prems(1) have "Thread \<notin> set E" by simp
  from env_step_interference [OF t] Cons.IH [OF this r] show ?case
    by (rule interference_trans)
qed

lemma no_step:
  "count_list sch Thread = 0 \<Longrightarrow> exec R D K sch s = Inr s' \<Longrightarrow> interference s s'"
  by (rule env_only) (simp_all add: count_list_0_iff)

lemma one_step:
  assumes "count_list sch Thread = Suc n" and "exec R D K sch s = Inr s'"
  shows "\<exists>u rest. interference s u \<and> count_list rest Thread = n
           \<and> exec R D K rest (flowThread_step R K u) = Inr s'"
proof -
  from split_first_thread [OF assms(1)] obtain E rest where
    sch: "sch = E @ Thread # rest" and E: "Thread \<notin> set E" and n: "count_list rest Thread = n"
    by blast
  from assms(2) obtain u where u: "exec R D K E s = Inr u"
    and r: "exec R D K (Thread # rest) u = Inr s'"
    unfolding sch exec_append by (auto split: sum.splits)
  from env_only [OF E u] n r show ?thesis by auto
qed

lemma one_step_num:
  assumes "count_list sch Thread = n" and "exec R D K sch s = Inr s'" and "0 < n"
  shows "\<exists>u rest. interference s u \<and> count_list rest Thread = n - 1
           \<and> exec R D K rest (flowThread_step R K u) = Inr s'"
proof -
  from assms(1,3) have "count_list sch Thread = Suc (n - 1)" by simp
  from one_step [OF this assms(2)] show ?thesis .
qed

subsection \<open>Steps of the flow thread\<close>

lemmas step_simps = flowThread_step_def record_call_def flowSetEventMask_def flowStateSet_def



lemma wait_step:
  "wait_then k t =
     (if gEvent t = EVENT_NONE \<and> \<not> gStop t then t
      else t\<lparr>gEvent := EVENT_NONE, pc := k (gEvent t),
             trace := trace t @ [ActWaitForEvent (gEvent t)]\<rparr>)"
  by (simp add: wait_then_def flowWaitForEvent_def record_call_def)



lemma after_back_without_capture:
  assumes pc: "pc t = CancelMask" and n: "count_list sch Thread = 2"
    and e: "exec R D K sch t = Inr s'" and ini: "gInited t"
  shows "trace s' = trace t @ [ActSetEventMask EVENT_TOUCH, ActStateSet FLOW_STATE_DONE]
         \<and> pc s' = CancelWait \<and> gEventMask s' = EVENT_TOUCH \<and> flowStateGet s' = FLOW_STATE_DONE
         \<and> m_corners (gFlowCalib s') = m_corners (gFlowCalib t)"
proof -
  \<comment> \<open>line 291: flowSetEventMask(EVENT_TOUCH)\<close>
  from one_step_num [OF n e] obtain u1 r1 where
    i1: "interference t u1" and c1: "count_list r1 Thread = 1"
    and e1: "exec R D K r1 (flowThread_step R K u1) = Inr s'" by auto
  define t2 where "t2 = flowThread_step R K u1"
  have p2: "pc t2 = CancelState" "trace t2 = trace t @ [ActSetEventMask EVENT_TOUCH]"
    "gInited t2" "m_corners (gFlowCalib t2) = m_corners (gFlowCalib t)"
    "gEventMask t2 = EVENT_TOUCH"
    using i1 pc ini by (simp_all add: t2_def step_simps interference_def)
  \<comment> \<open>line 292: flowStateSet(FLOW_STATE_DONE)\<close>
  from one_step_num [OF c1 e1 [folded t2_def]] obtain u2 r2 where
    i2: "interference t2 u2" and c2: "count_list r2 Thread = 0"
    and e2: "exec R D K r2 (flowThread_step R K u2) = Inr s'" by auto
  define t3 where "t3 = flowThread_step R K u2"
  have p3: "pc t3 = CancelWait"
    "trace t3 = trace t @ [ActSetEventMask EVENT_TOUCH, ActStateSet FLOW_STATE_DONE]"
    "gInited t3" "m_corners (gFlowCalib t3) = m_corners (gFlowCalib t)"
    "gEventMask t3 = EVENT_TOUCH" "gState t3 = FLOW_STATE_DONE"
    using i2 p2 by (simp_all add: t3_def step_simps interference_def)
  from no_step [OF c2 e2 [folded t3_def]] have "interference t3 s'" .
  with p3 show ?thesis by (simp add: interference_def flowStateGet_def)
qed

subsection \<open>The invariant holds in every reachable state\<close>

lemma inv_init:
  "m_corners c = [] \<Longrightarrow> 0 < sint (m_calibImageCountMax c) \<Longrightarrow> flow_inv (flowInitAndStart c cb)"
  by (simp add: flow_inv_def flowInitAndStart_def)

lemma inv_env: "flow_inv s \<Longrightarrow> interference s u \<Longrightarrow> flow_inv u"
  by (auto simp: flow_inv_def interference_def split: pc.splits)

lemma capture_bound:
  assumes "0 < sint (m_calibImageCountMax c)"
    and "length (m_corners c) \<le> nat (sint (m_calibImageCountMax c))"
  shows "m_calibImageCountMax (snd (capture R c)) = m_calibImageCountMax c
         \<and> length (m_corners (snd (capture R c))) \<le> nat (sint (m_calibImageCountMax c))
         \<and> (fst (capture R c) \<longrightarrow> m_corners (snd (capture R c)) \<noteq> [])
         \<and> (\<not> fst (capture R c) \<longrightarrow> snd (capture R c) = c)"
  using assms by (auto simp: capture_def Let_def scast_nonneg)

lemma loop_test_pc:
  "pc (loop_test s) \<in> {CaptureWait, CancelMask, CalibMask}"
  "pc (after_loop s) \<in> {CancelMask, CalibMask}"
  by (auto simp: loop_test_def after_loop_def)

lemma loop_test_keeps:
  "loop_test s = s\<lparr>pc := pc (loop_test s)\<rparr>" "after_loop s = s\<lparr>pc := pc (after_loop s)\<rparr>"
  by (auto simp: loop_test_def after_loop_def)

lemma inv_set_pc:
  assumes "flow_inv s"
    and "p = CaptureMask \<Longrightarrow> gState s = FLOW_STATE_CAPTURING \<and> \<not> captureDoneSinceBackButtonLastPressed s"
    and "p = CaptureWait \<or> (\<exists>ev. p = CaptureGot ev) \<Longrightarrow>
           gState s = FLOW_STATE_CAPTURING
           \<and> (captureDoneSinceBackButtonLastPressed s \<longrightarrow> m_corners (gFlowCalib s) \<noteq> [])"
  shows "flow_inv (s\<lparr>pc := p\<rparr>)"
  using assms by (auto simp: flow_inv_def split: pc.splits)

lemma inv_wait:
  assumes "flow_inv s"
    and "\<And>ev. k ev = CaptureMask \<Longrightarrow> gState s = FLOW_STATE_CAPTURING \<and> \<not> captureDoneSinceBackButtonLastPressed s"
    and "\<And>ev. k ev = CaptureWait \<or> (\<exists>e. k ev = CaptureGot e) \<Longrightarrow>
           gState s = FLOW_STATE_CAPTURING
           \<and> (captureDoneSinceBackButtonLastPressed s \<longrightarrow> m_corners (gFlowCalib s) \<noteq> [])"
  shows "flow_inv (wait_then k s)"
  using assms
  by (auto simp: wait_then_def flowWaitForEvent_def record_call_def flow_inv_def split: pc.splits)

lemma inv_loop_test:
  assumes "flow_inv s" and "gState s = FLOW_STATE_CAPTURING"
    and "captureDoneSinceBackButtonLastPressed s \<longrightarrow> m_corners (gFlowCalib s) \<noteq> []"
  shows "flow_inv (loop_test s)" "flow_inv (after_loop s)"
  using assms by (auto simp: loop_test_def after_loop_def flow_inv_def)

lemma inv_capture_got:
  assumes i: "flow_inv s" and p: "pc s = CaptureGot ev"
  shows "flow_inv (step_at R K (CaptureGot ev) s)"
proof -
  let ?c = "gFlowCalib s"
  from i p have g: "gState s = FLOW_STATE_CAPTURING"
    and f: "captureDoneSinceBackButtonLastPressed s \<longrightarrow> m_corners ?c \<noteq> []"
    and m: "0 < sint (m_calibImageCountMax ?c)"
    and b: "length (m_corners ?c) \<le> nat (sint (m_calibImageCountMax ?c))"
    and n: "gInited s"
    by (auto simp: flow_inv_def)
  note cb = capture_bound [OF m b, of R]
  show ?thesis
  proof (cases "gStop s")
    case True
    then show ?thesis using inv_loop_test(2) [OF i g f] by simp
  next
    case False
    show ?thesis
    proof (cases "ev = EVENT_TOUCH")
      case True
      obtain ok c where c: "capture R ?c = (ok, c)" by (cases "capture R ?c")
      let ?s1 = "record_call (ActCapture ok)
               (s\<lparr>gFlowCalib := c,
                   captureDoneSinceBackButtonLastPressed :=
                     (if ok then True else captureDoneSinceBackButtonLastPressed s)\<rparr>)"
      have "flow_inv ?s1"
        using cb c i p f by (auto simp: flow_inv_def record_call_def)
      moreover have "gState ?s1 = FLOW_STATE_CAPTURING" using g by (simp add: record_call_def)
      moreover have "captureDoneSinceBackButtonLastPressed ?s1 \<longrightarrow> m_corners (gFlowCalib ?s1) \<noteq> []"
        using cb c f by (auto simp: record_call_def)
      ultimately have "flow_inv (loop_test ?s1)" by (rule inv_loop_test(1))
      then show ?thesis using False True c by simp
    next
      case nt: False
      show ?thesis
      proof (cases "ev = EVENT_BACK_BUTTON")
        case True
        show ?thesis
        proof (cases "captureDoneSinceBackButtonLastPressed s")
          case False
          let ?s1 = "record_call (ActUncaptureAll (fst (uncaptureAll ?c)))
                       (s\<lparr>gFlowCalib := snd (uncaptureAll ?c)\<rparr>)"
          have "flow_inv ?s1"
            using i p False by (auto simp: flow_inv_def record_call_def uncaptureAll_def)
          moreover have "gState ?s1 = FLOW_STATE_CAPTURING" using g by (simp add: record_call_def)
          moreover have "captureDoneSinceBackButtonLastPressed ?s1 \<longrightarrow> m_corners (gFlowCalib ?s1) \<noteq> []"
            using False by (simp add: record_call_def)
          ultimately have "flow_inv (after_loop ?s1)" by (rule inv_loop_test(2))
          then show ?thesis using \<open>\<not> gStop s\<close> nt True False by (simp add: split_beta)
        next
          case True
          let ?s1 = "record_call (ActUncapture (fst (uncapture ?c)))
                       (s\<lparr>gFlowCalib := snd (uncapture ?c),
                           captureDoneSinceBackButtonLastPressed := False\<rparr>)"
          have "flow_inv ?s1"
            using i p by (auto simp: flow_inv_def record_call_def uncapture_def)
          moreover have "gState ?s1 = FLOW_STATE_CAPTURING" using g by (simp add: record_call_def)
          moreover have "captureDoneSinceBackButtonLastPressed ?s1 \<longrightarrow> m_corners (gFlowCalib ?s1) \<noteq> []"
            by (simp add: record_call_def)
          ultimately have "flow_inv (loop_test ?s1)" by (rule inv_loop_test(1))
          then show ?thesis using \<open>\<not> gStop s\<close> nt \<open>ev = EVENT_BACK_BUTTON\<close> True
            by (simp add: split_beta)
        qed
      next
        case False
        then show ?thesis using \<open>\<not> gStop s\<close> nt inv_loop_test(1) [OF i g f] by simp
      qed
    qed
  qed
qed

lemma inv_thread: "flow_inv s \<Longrightarrow> flow_inv (flowThread_step R K s)"
proof -
  assume i: "flow_inv s"
  show ?thesis
  proof (cases "pc s")
    case (CaptureGot ev)
    then show ?thesis using inv_capture_got [OF i CaptureGot] by (simp add: flowThread_step_def)
  qed (use i in \<open>auto simp: flowThread_step_def flow_inv_def record_call_def flowSetEventMask_def
          flowStateSet_def wait_then_def flowWaitForEvent_def uncaptureAll_def
          split: if_splits\<close>)
qed

lemma inv_exec:
  "flow_inv s \<Longrightarrow> exec R D K sch s = Inr s' \<Longrightarrow> flow_inv s'"
proof (induction sch arbitrary: s)
  case Nil
  then show ?case by simp
next
  case (Cons x sch)
  show ?case
  proof (cases x)
    case Thread
    with Cons.prems(2) have "exec R D K sch (flowThread_step R K s) = Inr s'" by simp
    from Cons.IH [OF inv_thread [OF Cons.prems(1)] this] show ?thesis .
  next
    case (Env e)
    with Cons.prems(2) obtain t where t: "env_step D e s = Inr t" and r: "exec R D K sch t = Inr s'"
      by (auto split: sum.splits)
    from Cons.IH [OF inv_env [OF Cons.prems(1) env_step_interference [OF t]] r] show ?thesis .
  qed
qed

subsection \<open>Posting events\<close>

lemma posts_keep:
  "gEventMask (flowHandleEvents evs s) = gEventMask s
   \<and> gInited (flowHandleEvents evs s) = gInited s
   \<and> gStop (flowHandleEvents evs s) = gStop s"
  by (induction evs arbitrary: s) (auto simp: flowHandleEvent_def)

lemma posts_event:
  "gInited s \<Longrightarrow>
     gEvent (flowHandleEvents evs s) =
       (if filter (\<lambda>e. e AND gEventMask s \<noteq> EVENT_NONE) evs = [] then gEvent s
        else last (filter (\<lambda>e. e AND gEventMask s \<noteq> EVENT_NONE) evs))"
proof (induction evs arbitrary: s)
  case Nil
  then show ?case by simp
next
  case (Cons ev evs)
  have i: "gInited (snd (flowHandleEvent ev s))"
    and m: "gEventMask (snd (flowHandleEvent ev s)) = gEventMask s"
    using Cons.prems by (auto simp: flowHandleEvent_def)
  show ?case
    using Cons.IH [OF i] Cons.prems unfolding m
    by (auto simp: flowHandleEvent_def)
qed

section \<open>The number of captured sets\<close>

text \<open>
  C1. The maximum is a number of images (\<^verbatim>\<open>calibImageCountMax\<close> is documented as
  the number of images to capture, and the program constructs its session with 10), so it
  is not negative. In every session constructed with such a maximum, after every sequence
  of calls (capture, uncapture, uncaptureAll, and also frame cycles and worker passes in
  between) that returns, \<^verbatim>\<open>calibImageCount() <= calibImageCountMax()\<close> holds as a
  comparison of C ints; and when the count equals the maximum \<^verbatim>\<open>capture()\<close> returns
  false and leaves the session as it was.
\<close>

theorem captured_count_bounded:
  assumes "0 \<le> sint n" and "calls R D xs (Calibration_new pt n sz sq w h) = Inr c"
  shows "sint (calibImageCount c) \<le> sint (calibImageCountMax c)
         \<and> (calibImageCount c = calibImageCountMax c \<longrightarrow> capture R' c = (False, c))"
proof -
  have m: "m_calibImageCountMax c = n" and b: "length (m_corners c) \<le> nat (sint n)"
    using reachable_bound [OF assms] by simp_all
  have "sint n < 2 ^ 31" using sint_lt [of n] by simp
  then have l: "length (m_corners c) < 2 ^ 31" using b assms(1) by simp
  have s: "sint (calibImageCount c) = int (length (m_corners c))"
    by (simp add: calibImageCount_def sint_of_nat [OF l])
  have 1: "sint (calibImageCount c) \<le> sint (calibImageCountMax c)"
    using s b m assms(1) by (simp add: calibImageCountMax_def)
  have 2: "capture R' c = (False, c)" if "calibImageCount c = calibImageCountMax c"
  proof -
    from that have "int (length (m_corners c)) = sint n"
      using s m by (simp add: calibImageCountMax_def)
    then have "nat (sint n) = length (m_corners c)" by (metis nat_int)
    then show ?thesis
      using assms(1) m by (simp add: capture_def scast_nonneg)
  qed
  show ?thesis using 1 2 by blast
qed

theorem captured_count_bounded_witness:
  "(case calls (\<lambda>img cs. map (\<lambda>(x, y). (x + 1 / 4, y)) cs) (\<lambda>img sz. (True, [(1, 1)]))
           [CallFrame False False
              \<lparr>checkoutFrameIfNewerThan = Some [1, 2, 3, 4], getVideoWidth = 2, getVideoHeight = 2\<rparr>,
            WorkerJob,
            CallFrame True True
              \<lparr>checkoutFrameIfNewerThan = None, getVideoWidth = 2, getVideoHeight = 2\<rparr>,
            CallCapture, CallCapture]
           (Calibration_new CHESSBOARD 1 (7, 5) 30 2 2) of
      Inl a \<Rightarrow> False
    | Inr c \<Rightarrow>
        m_corners c = [[(5 / 4, 1)]]
        \<and> sint (calibImageCount c) \<le> sint (calibImageCountMax c)
        \<and> capture (\<lambda>img cs. cs) c = (False, c))"
proof -
  define C where "C =
     \<lparr>m_cornerFinderData =
        \<lparr>patternType = CHESSBOARD, patternSize = (7, 5), videoWidth = 2,
           videoHeight = 2, videoFrame = Some [1, 2, 3, 4],
           cornerFoundAllFlag = 1, corners = [(1, 1)]\<rparr>,
      m_cornerFinderResultData =
        \<lparr>patternType = CHESSBOARD, patternSize = (7, 5), videoWidth = 2,
           videoHeight = 2, videoFrame = Some [1, 2, 3, 4],
           cornerFoundAllFlag = 1, corners = [(5 / 4, 1)]\<rparr>,
      m_corners = [[(5 / 4, 1)]], m_calibImageCountMax = 1,
      m_patternType = CHESSBOARD, m_patternSize = (7, 5),
      m_chessboardSquareWidth = 30, m_videoWidth = 2, m_videoHeight = 2\<rparr>"
  have h: "calls (\<lambda>img cs. map (\<lambda>(x, y). (x + 1 / 4, y)) cs) (\<lambda>img sz. (True, [(1, 1)]))
           [CallFrame False False
              \<lparr>checkoutFrameIfNewerThan = Some [1, 2, 3, 4], getVideoWidth = 2, getVideoHeight = 2\<rparr>,
            WorkerJob,
            CallFrame True True
              \<lparr>checkoutFrameIfNewerThan = None, getVideoWidth = 2, getVideoHeight = 2\<rparr>,
            CallCapture, CallCapture]
           (Calibration_new CHESSBOARD 1 (7, 5) 30 2 2) = Inr C"
    unfolding C_def by code_simp
  have n: "0 \<le> sint (1 :: c_int)" by simp
  have e: "calibImageCount C = calibImageCountMax C"
    by (simp add: C_def calibImageCount_def calibImageCountMax_def)
  have m: "m_corners C = [[(5 / 4, 1)]]" by (simp add: C_def)
  from captured_count_bounded [OF n h, of "\<lambda>img cs. cs"] e m show ?thesis
    by (simp only: h sum.case)
qed

section \<open>Capturing\<close>

text \<open>
  C2. In every state that a constructed session reaches, \<^verbatim>\<open>capture()\<close> returns false
  and changes nothing when the captured count equals the maximum or the found flag of the
  published result is not set; otherwise it returns true, replaces the corners of the
  published result by their refinement, and appends the refined corners as the last
  captured set, so the count goes up by exactly 1. The cast of the count to int is taken
  to keep its value (fewer than 2^31 captured sets), which a maximum that is not negative
  already guarantees.
\<close>

theorem capture_spec:
  assumes "calls R D xs (Calibration_new pt n sz sq w h) = Inr c"
    and "0 \<le> sint n \<or> length (m_corners c) < 2 ^ 31"
  shows "capture R' c =
           (if calibImageCount c = calibImageCountMax c
               \<or> cornerFoundAllFlag (m_cornerFinderResultData c) = 0
            then (False, c)
            else (True,
                  c\<lparr>m_cornerFinderResultData :=
                       (m_cornerFinderResultData c)
                         \<lparr>corners := R' (videoFrame (m_cornerFinderResultData c))
                                        (corners (m_cornerFinderResultData c))\<rparr>,
                     m_corners :=
                       m_corners c @ [R' (videoFrame (m_cornerFinderResultData c))
                                        (corners (m_cornerFinderResultData c))]\<rparr>))"
proof (cases "0 \<le> sint n")
  case True
  have m: "m_calibImageCountMax c = n" and b: "length (m_corners c) \<le> nat (sint n)"
    using reachable_bound [OF True assms(1)] by simp_all
  have "sint n < 2 ^ 31" using sint_lt [of n] by simp
  then have l: "length (m_corners c) < 2 ^ 31" using b True by simp
  have s: "sint (calibImageCount c) = int (length (m_corners c))"
    by (simp add: calibImageCount_def sint_of_nat [OF l])
  have e: "(calibImageCount c = calibImageCountMax c) = (nat (sint n) \<le> length (m_corners c))"
  proof
    assume "calibImageCount c = calibImageCountMax c"
    then have "int (length (m_corners c)) = sint n" using s m by (simp add: calibImageCountMax_def)
    then have "nat (sint n) = length (m_corners c)" by (metis nat_int)
    then show "nat (sint n) \<le> length (m_corners c)" by simp
  next
    assume "nat (sint n) \<le> length (m_corners c)"
    then have "int (length (m_corners c)) = sint n" using b True by simp
    then have "sint (calibImageCount c) = sint (calibImageCountMax c)"
      using s m by (simp add: calibImageCountMax_def)
    then show "calibImageCount c = calibImageCountMax c" by (rule signed_word_eqI)
  qed
  show ?thesis
    unfolding e using m True by (simp add: capture_def scast_nonneg Let_def)
next
  case False
  then have neg: "sint n < 0" by simp
  with assms(2) have l: "length (m_corners c) < 2 ^ 31" by simp
  have m: "m_calibImageCountMax c = n"
    using calls_max [OF assms(1)] by (simp add: new_session)
  have s: "sint (calibImageCount c) = int (length (m_corners c))"
    by (simp add: calibImageCount_def sint_of_nat [OF l])
  have ne: "calibImageCount c \<noteq> calibImageCountMax c"
  proof
    assume "calibImageCount c = calibImageCountMax c"
    then have "int (length (m_corners c)) = sint n" using s m by (simp add: calibImageCountMax_def)
    then show False using neg by simp
  qed
  have g: "\<not> unat (scast (m_calibImageCountMax c) :: size_t) \<le> length (m_corners c)"
    using scast_neg [OF neg] l m by simp
  show ?thesis using ne g by (simp add: capture_def Let_def)
qed

theorem capture_spec_witness:
  "(case calls (\<lambda>img cs. map (\<lambda>(x, y). (x + 1 / 4, y)) cs) (\<lambda>img sz. (True, [(1, 1)]))
           [CallFrame False False
              \<lparr>checkoutFrameIfNewerThan = Some [1, 2, 3, 4], getVideoWidth = 2, getVideoHeight = 2\<rparr>,
            WorkerJob,
            CallFrame True True
              \<lparr>checkoutFrameIfNewerThan = None, getVideoWidth = 2, getVideoHeight = 2\<rparr>,
            CallCapture]
           (Calibration_new CHESSBOARD 3 (7, 5) 30 2 2) of
      Inl a \<Rightarrow> False
    | Inr c \<Rightarrow>
        m_corners c = [[(5 / 4, 1)]]
        \<and> fst (capture (\<lambda>img cs. map (\<lambda>(x, y). (x, y + 1 / 4)) cs) c)
        \<and> m_corners (snd (capture (\<lambda>img cs. map (\<lambda>(x, y). (x, y + 1 / 4)) cs) c))
            = [[(5 / 4, 1)], [(5 / 4, 5 / 4)]])"
proof -
  define C where "C =
     \<lparr>m_cornerFinderData =
        \<lparr>patternType = CHESSBOARD, patternSize = (7, 5), videoWidth = 2,
           videoHeight = 2, videoFrame = Some [1, 2, 3, 4],
           cornerFoundAllFlag = 1, corners = [(1, 1)]\<rparr>,
      m_cornerFinderResultData =
        \<lparr>patternType = CHESSBOARD, patternSize = (7, 5), videoWidth = 2,
           videoHeight = 2, videoFrame = Some [1, 2, 3, 4],
           cornerFoundAllFlag = 1, corners = [(5 / 4, 1)]\<rparr>,
      m_corners = [[(5 / 4, 1)]], m_calibImageCountMax = 3,
      m_patternType = CHESSBOARD, m_patternSize = (7, 5),
      m_chessboardSquareWidth = 30, m_videoWidth = 2, m_videoHeight = 2\<rparr>"
  have h: "calls (\<lambda>img cs. map (\<lambda>(x, y). (x + 1 / 4, y)) cs) (\<lambda>img sz. (True, [(1, 1)]))
           [CallFrame False False
              \<lparr>checkoutFrameIfNewerThan = Some [1, 2, 3, 4], getVideoWidth = 2, getVideoHeight = 2\<rparr>,
            WorkerJob,
            CallFrame True True
              \<lparr>checkoutFrameIfNewerThan = None, getVideoWidth = 2, getVideoHeight = 2\<rparr>,
            CallCapture]
           (Calibration_new CHESSBOARD 3 (7, 5) 30 2 2) = Inr C"
    unfolding C_def by code_simp
  have n: "0 \<le> sint (3 :: c_int) \<or> length (m_corners C) < 2 ^ 31" by simp
  have e: "calibImageCount C \<noteq> calibImageCountMax C"
    by (simp add: C_def calibImageCount_def calibImageCountMax_def)
  have f: "cornerFoundAllFlag (m_cornerFinderResultData C) \<noteq> 0" by (simp add: C_def)
  have m: "m_corners C = [[(5 / 4, 1)]]"
    "corners (m_cornerFinderResultData C) = [(5 / 4, 1)]" by (simp_all add: C_def)
  from capture_spec [OF h n, of "\<lambda>img cs. map (\<lambda>(x, y). (x, y + 1 / 4)) cs"] e f m
  have cap: "capture (\<lambda>img cs. map (\<lambda>(x, y). (x, y + 1 / 4)) cs) C =
      (True, C\<lparr>m_cornerFinderResultData := (m_cornerFinderResultData C)\<lparr>corners := [(5 / 4, 5 / 4)]\<rparr>,
               m_corners := [[(5 / 4, 1)], [(5 / 4, 5 / 4)]]\<rparr>)"
    by simp
  show ?thesis by (simp only: h sum.case) (simp add: cap m)
qed

section \<open>Undoing a capture\<close>

text \<open>
  C8. \<^verbatim>\<open>uncapture()\<close> on an empty collection returns false and leaves the session as it
  was; on a non-empty collection it returns true and removes exactly the element appended
  last: the collection that held \<open>xs\<close> followed by \<open>x\<close> holds \<open>xs\<close> afterwards, so
  the count goes down by exactly 1, and nothing else in the session changes.
\<close>

theorem uncapture_spec:
  "uncapture c =
     (if m_corners c = [] then (False, c)
      else (True, c\<lparr>m_corners := butlast (m_corners c)\<rparr>))
   \<and> (m_corners c = xs @ [x] \<longrightarrow>
        m_corners (snd (uncapture c)) = xs
        \<and> length (m_corners (snd (uncapture c))) + 1 = length (m_corners c))"
  by (simp add: uncapture_def)

theorem uncapture_spec_witness:
  "uncapture (Calibration_new CHESSBOARD 3 (7, 5) 30 2 2\<lparr>m_corners := [[(1, 2)], [(3, 4)]]\<rparr>)
     = (True, Calibration_new CHESSBOARD 3 (7, 5) 30 2 2\<lparr>m_corners := [[(1, 2)]]\<rparr>)
   \<and> uncapture (Calibration_new CHESSBOARD 3 (7, 5) 30 2 2)
     = (False, Calibration_new CHESSBOARD 3 (7, 5) 30 2 2)"
  using uncapture_spec [of "Calibration_new CHESSBOARD 3 (7, 5) 30 2 2\<lparr>m_corners := [[(1, 2)], [(3, 4)]]\<rparr>"
      "[[(1, 2)]]" "[(3, 4)]"]
    uncapture_spec [of "Calibration_new CHESSBOARD 3 (7, 5) 30 2 2" "[]" "[]"]
  by (simp add: Calibration_new_def)

section \<open>Unsupported pattern types\<close>

text \<open>
  C6, as stated: an unsupported pattern type is detected when the session is constructed,
  and no detection job with such a type is ever run. The constructor stores the type
  unchecked: a session for the circles grid is constructed, its first frame cycle copies
  the frame, returns true and starts the worker, and the worker's pass over that job ends
  in \<^verbatim>\<open>exit(0)\<close>.
\<close>

theorem unsupported_pattern_counterexample:
  "m_patternType (Calibration_new CIRCLES_GRID 10 (4, 11) 20 2 2) = CIRCLES_GRID
   \<and> (case frame False False
             \<lparr>checkoutFrameIfNewerThan = Some [1, 2, 3, 4], getVideoWidth = 2, getVideoHeight = 2\<rparr>
             (Calibration_new CIRCLES_GRID 10 (4, 11) 20 2 2) of
         Inl a \<Rightarrow> False
       | Inr (ret, started, c) \<Rightarrow>
           ret \<and> started
           \<and> cornerFinder_job (\<lambda>img sz. (False, [])) (m_cornerFinderData c) = Inl (Exit 0))"
  by code_simp

text \<open>
  C6, amended: construction succeeds for every pattern type and stores the type as given;
  no later call changes the pattern type of the worker's data; the unsupported type is
  detected at job time, where a pass of the worker ends the process with \<^verbatim>\<open>exit(0)\<close>
  exactly when the pattern type is not the chessboard, and a chessboard job always
  completes.
\<close>

theorem unsupported_pattern_at_job_time:
  "m_patternType (Calibration_new pt n sz sq w h) = pt
   \<and> patternType (m_cornerFinderData (Calibration_new pt n sz sq w h)) = pt
   \<and> (call R D x c = Inr c' \<longrightarrow>
        patternType (m_cornerFinderData c') = patternType (m_cornerFinderData c))
   \<and> (cornerFinder_job D d = Inl (Exit 0)) = (patternType d \<noteq> CHESSBOARD)
   \<and> (patternType d = CHESSBOARD \<longrightarrow> (\<exists>d'. cornerFinder_job D d = Inr d'))"
proof -
  have 1: "m_patternType (Calibration_new pt n sz sq w h) = pt"
    by (simp add: Calibration_new_def)
  have 2: "patternType (m_cornerFinderData (Calibration_new pt n sz sq w h)) = pt"
    by (simp add: Calibration_new_def CalibrationCornerFinderData_new_def init_def)
  have 3: "patternType (m_cornerFinderData c') = patternType (m_cornerFinderData c)"
    if "call R D x c = Inr c'"
  proof (cases x)
    case (CallFrame s b vs)
    with that obtain r st where "frame s b vs c = Inr (r, st, c')" by (auto split: sum.splits)
    from frame_data [OF this] show ?thesis
      by (metis CalibrationCornerFinderData.select_convs(1) CalibrationCornerFinderData.surjective
            CalibrationCornerFinderData.update_convs(5))
  next
    case WorkerJob
    with that show ?thesis
      by (auto simp: cornerFinder_job_def split: sum.splits CalibrationPatternType.splits prod.splits)
  qed (use that in \<open>auto simp: capture_def uncapture_def uncaptureAll_def Let_def\<close>)
  have 4: "(cornerFinder_job D d = Inl (Exit 0)) = (patternType d \<noteq> CHESSBOARD)"
    by (auto simp: cornerFinder_job_def split: CalibrationPatternType.splits prod.splits)
  have 5: "patternType d = CHESSBOARD \<longrightarrow> (\<exists>d'. cornerFinder_job D d = Inr d')"
    by (auto simp: cornerFinder_job_def split: prod.splits)
  from 1 2 3 4 5 show ?thesis by blast
qed

theorem unsupported_pattern_at_job_time_witness:
  "patternType (m_cornerFinderData (Calibration_new CHESSBOARD 3 (7, 5) 30 2 2)) = CHESSBOARD
   \<and> call (\<lambda>img cs. cs) (\<lambda>img sz. (True, [(1, 1)])) WorkerJob (Calibration_new CHESSBOARD 3 (7, 5) 30 2 2)
       = Inr ((Calibration_new CHESSBOARD 3 (7, 5) 30 2 2)
                \<lparr>m_cornerFinderData :=
                   (m_cornerFinderData (Calibration_new CHESSBOARD 3 (7, 5) 30 2 2))
                     \<lparr>cornerFoundAllFlag := 1, corners := [(1, 1)]\<rparr>\<rparr>)
   \<and> patternType (m_cornerFinderData
        ((Calibration_new CHESSBOARD 3 (7, 5) 30 2 2)
                \<lparr>m_cornerFinderData :=
                   (m_cornerFinderData (Calibration_new CHESSBOARD 3 (7, 5) 30 2 2))
                     \<lparr>cornerFoundAllFlag := 1, corners := [(1, 1)]\<rparr>\<rparr>)) = CHESSBOARD
   \<and> (\<exists>d'. cornerFinder_job (\<lambda>img sz. (True, [(1, 1)]))
               (m_cornerFinderData (Calibration_new CHESSBOARD 3 (7, 5) 30 2 2)) = Inr d')"
proof -
  have h: "call (\<lambda>img cs. cs) (\<lambda>img sz. (True, [(1, 1)])) WorkerJob (Calibration_new CHESSBOARD 3 (7, 5) 30 2 2)
       = Inr ((Calibration_new CHESSBOARD 3 (7, 5) 30 2 2)
                \<lparr>m_cornerFinderData :=
                   (m_cornerFinderData (Calibration_new CHESSBOARD 3 (7, 5) 30 2 2))
                     \<lparr>cornerFoundAllFlag := 1, corners := [(1, 1)]\<rparr>\<rparr>)"
    by (simp add: cornerFinder_job_def Calibration_new_def CalibrationCornerFinderData_new_def init_def)
  from unsupported_pattern_at_job_time [of CHESSBOARD 3 "(7, 5)" 30 2 2 "\<lambda>img cs. cs" "\<lambda>img sz. (True, [(1, 1)])" WorkerJob
      "Calibration_new CHESSBOARD 3 (7, 5) 30 2 2"
      "(Calibration_new CHESSBOARD 3 (7, 5) 30 2 2)
                \<lparr>m_cornerFinderData :=
                   (m_cornerFinderData (Calibration_new CHESSBOARD 3 (7, 5) 30 2 2))
                     \<lparr>cornerFoundAllFlag := 1, corners := [(1, 1)]\<rparr>\<rparr>"
      "m_cornerFinderData (Calibration_new CHESSBOARD 3 (7, 5) 30 2 2)"] h
  show ?thesis by (simp only:)
qed

section \<open>The published result\<close>

text \<open>
  C7, as stated: no operation changes the published result in place, and \<^verbatim>\<open>capture()\<close>
  leaves it unchanged. \<^verbatim>\<open>capture()\<close> hands the corner vector of the result slot itself
  to \<^verbatim>\<open>cornerSubPix\<close>, which writes the refined positions back into it: after a
  frame cycle, a worker pass and the publishing frame cycle the slot holds the detected
  corner (1, 1), and after a successful capture whose refinement moves the corner it
  holds (5 / 4, 1).
\<close>

theorem published_result_counterexample:
  "(case calls (\<lambda>img cs. map (\<lambda>(x, y). (x + 1 / 4, y)) cs) (\<lambda>img sz. (True, [(1, 1)]))
           [CallFrame False False
              \<lparr>checkoutFrameIfNewerThan = Some [1, 2, 3, 4], getVideoWidth = 2, getVideoHeight = 2\<rparr>,
            WorkerJob,
            CallFrame True True
              \<lparr>checkoutFrameIfNewerThan = None, getVideoWidth = 2, getVideoHeight = 2\<rparr>]
           (Calibration_new CHESSBOARD 3 (7, 5) 30 2 2) of
      Inl a \<Rightarrow> False
    | Inr c \<Rightarrow>
        corners (m_cornerFinderResultData c) = [(1, 1)]
        \<and> corners (m_cornerFinderResultData
                     (snd (capture (\<lambda>img cs. map (\<lambda>(x, y). (x + 1 / 4, y)) cs) c))) = [(5 / 4, 1)])"
  by code_simp

text \<open>
  C7, amended: \<^verbatim>\<open>capture()\<close> changes nothing of the published result but its corner
  sequence (the frame, the found flag, the pattern and the dimensions stay), and the
  corner sequence becomes its refinement when \<^verbatim>\<open>capture()\<close> succeeds and stays as it
  is when it fails; \<^verbatim>\<open>uncapture()\<close>, \<^verbatim>\<open>uncaptureAll()\<close>, a worker pass and a frame
  cycle that finds no completed job leave the published result unchanged; a frame cycle
  that finds a completed job replaces it wholesale by the copy assignment of the worker's
  data, which takes every field but the pixels from the worker's data as it is and, in a
  session constructed with positive dimensions (of product below 2^64), the pixels too.
\<close>

theorem published_result_effects:
  "(m_cornerFinderResultData (snd (capture R c)))\<lparr>corners := corners (m_cornerFinderResultData c)\<rparr>
     = m_cornerFinderResultData c
   \<and> corners (m_cornerFinderResultData (snd (capture R c))) =
       (if fst (capture R c)
        then R (videoFrame (m_cornerFinderResultData c)) (corners (m_cornerFinderResultData c))
        else corners (m_cornerFinderResultData c))
   \<and> m_cornerFinderResultData (snd (uncapture c)) = m_cornerFinderResultData c
   \<and> m_cornerFinderResultData (snd (uncaptureAll c)) = m_cornerFinderResultData c
   \<and> (call R D WorkerJob c = Inr c' \<longrightarrow> m_cornerFinderResultData c' = m_cornerFinderResultData c)
   \<and> (frame False busy vs c = Inr (ret, started, c') \<longrightarrow>
        m_cornerFinderResultData c' = m_cornerFinderResultData c)
   \<and> (frame True busy vs c = Inr (ret, started, c') \<longrightarrow>
        assign (m_cornerFinderResultData c) (m_cornerFinderData c) = Inr (m_cornerFinderResultData c')
        \<and> (m_cornerFinderResultData c')\<lparr>videoFrame := videoFrame (m_cornerFinderData c)\<rparr>
            = m_cornerFinderData c)
   \<and> (frame True busy vs c = Inr (ret, started, c')
        \<and> 0 < w \<and> 0 < h \<and> w * h < 2 ^ 64
        \<and> calls R D xs (Calibration_new pt n sz sq w h) = Inr c \<longrightarrow>
        m_cornerFinderResultData c' = m_cornerFinderData c)"
proof -
  have 1: "(m_cornerFinderResultData (snd (capture R c)))\<lparr>corners := corners (m_cornerFinderResultData c)\<rparr>
     = m_cornerFinderResultData c"
    by (simp add: capture_def Let_def)
  have 2: "corners (m_cornerFinderResultData (snd (capture R c))) =
       (if fst (capture R c)
        then R (videoFrame (m_cornerFinderResultData c)) (corners (m_cornerFinderResultData c))
        else corners (m_cornerFinderResultData c))"
    by (simp add: capture_def Let_def)
  have 3: "m_cornerFinderResultData (snd (uncapture c)) = m_cornerFinderResultData c"
    by (simp add: uncapture_def)
  have 4: "m_cornerFinderResultData (snd (uncaptureAll c)) = m_cornerFinderResultData c"
    by (simp add: uncaptureAll_def)
  have 5: "call R D WorkerJob c = Inr c' \<longrightarrow> m_cornerFinderResultData c' = m_cornerFinderResultData c"
    by (auto split: sum.splits)
  have 6: "frame False busy vs c = Inr (ret, started, c') \<longrightarrow>
        m_cornerFinderResultData c' = m_cornerFinderResultData c"
    by (auto simp: frame_def split: if_splits sum.splits option.splits)
  have 7: "assign (m_cornerFinderResultData c) (m_cornerFinderData c) = Inr (m_cornerFinderResultData c')"
    if "frame True busy vs c = Inr (ret, started, c')"
    using that by (auto simp: frame_def split: if_splits sum.splits option.splits)
  have 8: "m_cornerFinderResultData c' = m_cornerFinderData c"
    if a: "frame True busy vs c = Inr (ret, started, c')
        \<and> 0 < w \<and> 0 < h \<and> w * h < 2 ^ 64
        \<and> calls R D xs (Calibration_new pt n sz sq w h) = Inr c"
  proof -
    from a new_ok [of w h pt n sz sq] have
      "frame_buffer_ok (m_cornerFinderData (Calibration_new pt n sz sq w h))" by simp
    from calls_ok [OF _ this] a new_ok [of w h pt n sz sq]
    have ok: "frame_buffer_ok (m_cornerFinderData c)"
      and d: "videoWidth (m_cornerFinderData c) = w" "videoHeight (m_cornerFinderData c) = h"
      by auto
    from a have pub: "frame True busy vs c = Inr (ret, started, c')" by blast
    show ?thesis
    proof (cases "w * h < 2 ^ 31")
      case True
      show ?thesis
        by (rule assign_exact [OF ok _ 7 [OF pub]]) (use True d in simp)
    next
      case False
      have "assign (m_cornerFinderResultData c) (m_cornerFinderData c) = Inl MemoryFault"
        by (rule assign_faults [OF ok]) (use False a d in simp_all)
      with 7 [OF pub] show ?thesis by simp
    qed
  qed
  from 1 2 3 4 5 6 7 8 assign_fields show ?thesis by blast
qed

theorem published_result_effects_witness:
  "(case calls (\<lambda>img cs. cs) (\<lambda>img sz. (True, [(1, 1)]))
           [CallFrame False False
              \<lparr>checkoutFrameIfNewerThan = Some [1, 2, 3, 4], getVideoWidth = 2, getVideoHeight = 2\<rparr>,
            WorkerJob]
           (Calibration_new CHESSBOARD 3 (7, 5) 30 2 2) of
      Inl a \<Rightarrow> False
    | Inr c \<Rightarrow>
        (case frame True True
                \<lparr>checkoutFrameIfNewerThan = None, getVideoWidth = 2, getVideoHeight = 2\<rparr> c of
           Inl a \<Rightarrow> False
         | Inr (ret, started, c') \<Rightarrow>
             m_cornerFinderResultData c' = m_cornerFinderData c
             \<and> corners (m_cornerFinderResultData c') = [(1, 1)]
             \<and> videoFrame (m_cornerFinderResultData c') = Some [1, 2, 3, 4]))"
proof -
  define d where "d =
        \<lparr>patternType = CHESSBOARD, patternSize = (7, 5), videoWidth = 2,
           videoHeight = 2, videoFrame = Some [1, 2, 3, 4 :: uint8_t],
           cornerFoundAllFlag = 1, corners = [(1, 1) :: Point2f]\<rparr>"
  define C where "C =
     \<lparr>m_cornerFinderData = d,
      m_cornerFinderResultData =
        \<lparr>patternType = CHESSBOARD, patternSize = (7, 5), videoWidth = 0,
           videoHeight = 0, videoFrame = None,
           cornerFoundAllFlag = 0, corners = []\<rparr>,
      m_corners = [], m_calibImageCountMax = 3,
      m_patternType = CHESSBOARD, m_patternSize = (7, 5),
      m_chessboardSquareWidth = 30, m_videoWidth = 2, m_videoHeight = 2\<rparr>"
  have h: "calls (\<lambda>img cs. cs) (\<lambda>img sz. (True, [(1, 1)]))
           [CallFrame False False
              \<lparr>checkoutFrameIfNewerThan = Some [1, 2, 3, 4], getVideoWidth = 2, getVideoHeight = 2\<rparr>,
            WorkerJob]
           (Calibration_new CHESSBOARD 3 (7, 5) 30 2 2) = Inr C"
    unfolding C_def d_def by code_simp
  have f: "frame True True
             \<lparr>checkoutFrameIfNewerThan = None, getVideoWidth = 2, getVideoHeight = 2\<rparr> C
           = Inr (True, False, C\<lparr>m_cornerFinderResultData := d\<rparr>)"
    unfolding C_def d_def by code_simp
  have s: "(0 :: int) < 2 \<and> (2 :: int) * 2 < 2 ^ 64" by simp
  from published_result_effects [where c = C and c' = "C\<lparr>m_cornerFinderResultData := d\<rparr>"
      and R = "\<lambda>img cs. cs" and D = "\<lambda>img sz. (True, [(1, 1)])" and busy = True
      and vs = "\<lparr>checkoutFrameIfNewerThan = None, getVideoWidth = 2, getVideoHeight = 2\<rparr>"
      and ret = True and started = False and w = 2 and h = 2 and pt = CHESSBOARD and n = 3
      and sz = "(7, 5)" and sq = 30] f h s
  have r: "m_cornerFinderResultData (C\<lparr>m_cornerFinderResultData := d\<rparr>) = m_cornerFinderData C"
    by blast
  have v: "corners d = [(1, 1)]" "videoFrame d = Some [1, 2, 3, 4]" by (simp_all add: d_def)
  show ?thesis by (simp only: h f sum.case prod.case) (use r v in simp)
qed

section \<open>The frame cycle\<close>

text \<open>
  C10. \<^verbatim>\<open>frame(vs)\<close> has one return statement, and it returns true: every call that
  returns, returns true. When the worker is busy and has nothing completed the call
  returns true and the session is unchanged (the frame is dropped); when the video source
  has no newer frame and nothing is completed the call returns true and the session is
  unchanged. The byte counts of the allocation and of the copy of a frame are products of
  two C ints; in a session constructed with positive dimensions whose product is below
  2^31 (so that the C int product is the number of pixels), with a video source of the
  same dimensions whose frames hold width times height bytes (as the constructor's
  documentation asks), every call returns, so every call returns true.
\<close>

theorem frame_returns_true:
  "(frame status busy vs c = Inr (ret, started, c') \<longrightarrow> ret)
   \<and> (busy \<longrightarrow> frame False busy vs c = Inr (True, False, c))
   \<and> (checkoutFrameIfNewerThan vs = None \<longrightarrow> frame False busy vs c = Inr (True, False, c))
   \<and> (0 < w \<and> 0 < h \<and> w * h < 2 ^ 31
        \<and> calls R D xs (Calibration_new pt n sz sq w h) = Inr c
        \<and> getVideoWidth vs = w \<and> getVideoHeight vs = h
        \<and> (\<forall>l. checkoutFrameIfNewerThan vs = Some l \<longrightarrow> nat (w * h) \<le> length l)
      \<longrightarrow> (\<exists>st c''. frame status busy vs c = Inr (True, st, c'')))"
proof -
  have 1: "frame status busy vs c = Inr (ret, started, c') \<longrightarrow> ret"
    by (auto dest: frame_effect)
  have 2: "busy \<longrightarrow> frame False busy vs c = Inr (True, False, c)"
    by (simp add: frame_def)
  have 3: "checkoutFrameIfNewerThan vs = None \<longrightarrow> frame False busy vs c = Inr (True, False, c)"
    by (simp add: frame_def)
  have 4: "\<exists>st c''. frame status busy vs c = Inr (True, st, c'')"
    if a: "0 < w \<and> 0 < h \<and> w * h < 2 ^ 31
        \<and> calls R D xs (Calibration_new pt n sz sq w h) = Inr c
        \<and> getVideoWidth vs = w \<and> getVideoHeight vs = h
        \<and> (\<forall>l. checkoutFrameIfNewerThan vs = Some l \<longrightarrow> nat (w * h) \<le> length l)"
  proof -
    from a new_ok [of w h pt n sz sq] have
      "frame_buffer_ok (m_cornerFinderData (Calibration_new pt n sz sq w h))" by simp
    from calls_ok [OF _ this] a new_ok [of w h pt n sz sq]
    have ok: "frame_buffer_ok (m_cornerFinderData c)"
      and d: "videoWidth (m_cornerFinderData c) = w" "videoHeight (m_cornerFinderData c) = h"
      by auto
    show ?thesis
      by (rule frame_total [OF ok]) (use a d in auto)
  qed
  from 1 2 3 4 show ?thesis by blast
qed

theorem frame_returns_true_witness:
  "frame False True \<lparr>checkoutFrameIfNewerThan = None, getVideoWidth = 2, getVideoHeight = 2\<rparr>
      (Calibration_new CHESSBOARD 3 (7, 5) 30 2 2)
     = Inr (True, False, Calibration_new CHESSBOARD 3 (7, 5) 30 2 2)
   \<and> (\<exists>st c''. frame True False
          \<lparr>checkoutFrameIfNewerThan = Some [1, 2, 3, 4], getVideoWidth = 2, getVideoHeight = 2\<rparr>
          (Calibration_new CHESSBOARD 3 (7, 5) 30 2 2) = Inr (True, st, c''))"
proof -
  have h: "calls (\<lambda>img cs. cs) (\<lambda>img sz. (True, [(1, 1)])) []
             (Calibration_new CHESSBOARD 3 (7, 5) 30 2 2)
           = Inr (Calibration_new CHESSBOARD 3 (7, 5) 30 2 2)"
    by simp
  have f: "frame False True \<lparr>checkoutFrameIfNewerThan = None, getVideoWidth = 2, getVideoHeight = 2\<rparr>
      (Calibration_new CHESSBOARD 3 (7, 5) 30 2 2)
     = Inr (True, False, Calibration_new CHESSBOARD 3 (7, 5) 30 2 2)"
    by (simp add: frame_def)
  from frame_returns_true [of False True
      "\<lparr>checkoutFrameIfNewerThan = None, getVideoWidth = 2, getVideoHeight = 2\<rparr>"
      "Calibration_new CHESSBOARD 3 (7, 5) 30 2 2" True False
      "Calibration_new CHESSBOARD 3 (7, 5) 30 2 2" 2 2 "\<lambda>img cs. cs" "\<lambda>img sz. (True, [(1, 1)])"
      "[]" CHESSBOARD 3 "(7, 5)" 30] f h
  have a: "frame False True \<lparr>checkoutFrameIfNewerThan = None, getVideoWidth = 2, getVideoHeight = 2\<rparr>
      (Calibration_new CHESSBOARD 3 (7, 5) 30 2 2)
     = Inr (True, False, Calibration_new CHESSBOARD 3 (7, 5) 30 2 2)"
    by simp
  from frame_returns_true [of True False
      "\<lparr>checkoutFrameIfNewerThan = Some [1, 2, 3, 4], getVideoWidth = 2, getVideoHeight = 2\<rparr>"
      "Calibration_new CHESSBOARD 3 (7, 5) 30 2 2" _ _ _ 2 2 "\<lambda>img cs. cs"
      "\<lambda>img sz. (True, [(1, 1)])" "[]" CHESSBOARD 3 "(7, 5)" 30] h
  have b: "\<exists>st c''. frame True False
          \<lparr>checkoutFrameIfNewerThan = Some [1, 2, 3, 4], getVideoWidth = 2, getVideoHeight = 2\<rparr>
          (Calibration_new CHESSBOARD 3 (7, 5) 30 2 2) = Inr (True, st, c'')"
    by simp
  from a b show ?thesis by blast
qed

section \<open>The end of a completed capture run\<close>




section \<open>BACK\_BUTTON in the capture loop\<close>

text \<open>
  C4, as stated: a BACK\_BUTTON with no capture since the last back-press returns to WELCOME
  immediately. The controller takes the cancelled branch instead: it sets the mask TOUCH
  and the state DONE and waits for an event. In the run below, with no capture so far, the
  state read by \<^verbatim>\<open>flowStateGet\<close> after the BACK\_BUTTON is DONE and the thread is blocked
  in its wait.
\<close>

theorem back_button_counterexample:
  "(case exec (\<lambda>img cs. cs) (\<lambda>img sz. (True, [(1, 1)])) (\<lambda>c. ([], 0, 0, 0))
           [Thread, Thread, Thread, Env (HandleEvent EVENT_TOUCH),
            Thread, Thread, Thread, Env (HandleEvent EVENT_BACK_BUTTON),
            Thread, Thread, Thread, Thread, Thread, Thread]
           (flowInitAndStart (Calibration_new CHESSBOARD 3 (7, 5) 30 2 2) True) of
      Inl a \<Rightarrow> False
    | Inr s \<Rightarrow>
        trace s =
          [ActStateSet FLOW_STATE_WELCOME, ActSetEventMask (EVENT_TOUCH OR EVENT_MODAL),
           ActWaitForEvent EVENT_TOUCH, ActStateSet FLOW_STATE_CAPTURING,
           ActSetEventMask (EVENT_TOUCH OR EVENT_BACK_BUTTON), ActWaitForEvent EVENT_BACK_BUTTON,
           ActUncaptureAll False, ActSetEventMask EVENT_TOUCH, ActStateSet FLOW_STATE_DONE]
        \<and> flowStateGet s = FLOW_STATE_DONE \<and> pc s = CancelWait
        \<and> flowWaitForEvent s = None)"
  by code_simp

text \<open>
  C4, amended: in a controller started on a session without captured sets and with a
  positive maximum, when the wait of the capture loop has returned BACK\_BUTTON and no stop
  is requested: if no capture has succeeded since the last back-press, the controller calls
  \<^verbatim>\<open>uncaptureAll()\<close>, leaves the capture loop, sets the mask TOUCH and the state DONE,
  with no captured set left and without calling the callback, and waits for one event
  before it goes back to the welcome loop; if a capture has succeeded since the last
  back-press, the state is CAPTURING, \<^verbatim>\<open>uncapture()\<close> returns true and removes exactly
  the last captured set, the flag is cleared and the controller stays in the capture loop.
\<close>

theorem back_button_in_capture:
  assumes reach: "exec R D K sch0 (flowInitAndStart c cb) = Inr s"
    and fresh: "m_corners c = []" and pos: "0 < sint (m_calibImageCountMax c)"
    and pc: "pc s = CaptureGot EVENT_BACK_BUTTON" and run: "\<not> gStop s"
  shows "(\<not> captureDoneSinceBackButtonLastPressed s \<longrightarrow>
           (\<forall>rest s'. count_list rest Thread = 2 \<and> exec R D K (Thread # rest) s = Inr s' \<longrightarrow>
              trace s' = trace s
                @ [ActUncaptureAll (m_corners (gFlowCalib s) \<noteq> []), ActSetEventMask EVENT_TOUCH,
                   ActStateSet FLOW_STATE_DONE]
              \<and> pc s' = CancelWait \<and> gEventMask s' = EVENT_TOUCH
              \<and> flowStateGet s' = FLOW_STATE_DONE
              \<and> m_corners (gFlowCalib s') = []
              \<and> flowThread_step R K s' =
                  (if gEvent s' = EVENT_NONE \<and> \<not> gStop s' then s'
                   else s'\<lparr>gEvent := EVENT_NONE, pc := CancelGot,
                           trace := trace s' @ [ActWaitForEvent (gEvent s')]\<rparr>)))
         \<and> (captureDoneSinceBackButtonLastPressed s \<longrightarrow>
              flowStateGet s = FLOW_STATE_CAPTURING
              \<and> (\<exists>xs x. m_corners (gFlowCalib s) = xs @ [x]
                    \<and> flowThread_step R K s =
                        s\<lparr>gFlowCalib := (gFlowCalib s)\<lparr>m_corners := xs\<rparr>,
                          captureDoneSinceBackButtonLastPressed := False,
                          pc := CaptureWait,
                          trace := trace s @ [ActUncapture True]\<rparr>))
         \<and> (\<forall>t. pc t = CancelGot \<and> \<not> gStop t \<longrightarrow> flowThread_step R K t = t\<lparr>pc := LoopTop\<rparr>)"
proof -
  let ?c = "gFlowCalib s"
  have inv: "flow_inv s" using inv_exec [OF inv_init [OF fresh pos] reach] .
  then have g: "gState s = FLOW_STATE_CAPTURING" and ini: "gInited s"
    and f: "captureDoneSinceBackButtonLastPressed s \<longrightarrow> m_corners ?c \<noteq> []"
    and m: "0 < sint (m_calibImageCountMax ?c)"
    and b: "length (m_corners ?c) \<le> nat (sint (m_calibImageCountMax ?c))"
    using pc by (auto simp: flow_inv_def)
  have ne: "EVENT_BACK_BUTTON \<noteq> EVENT_TOUCH" by (simp add: EVENT_BACK_BUTTON_def EVENT_TOUCH_def)
  have 1: "trace s' = trace s
                @ [ActUncaptureAll (m_corners ?c \<noteq> []), ActSetEventMask EVENT_TOUCH,
                   ActStateSet FLOW_STATE_DONE]
              \<and> pc s' = CancelWait \<and> gEventMask s' = EVENT_TOUCH
              \<and> flowStateGet s' = FLOW_STATE_DONE
              \<and> m_corners (gFlowCalib s') = []
              \<and> flowThread_step R K s' =
                  (if gEvent s' = EVENT_NONE \<and> \<not> gStop s' then s'
                   else s'\<lparr>gEvent := EVENT_NONE, pc := CancelGot,
                           trace := trace s' @ [ActWaitForEvent (gEvent s')]\<rparr>)"
    if nf: "\<not> captureDoneSinceBackButtonLastPressed s"
      and r: "count_list rest Thread = 2 \<and> exec R D K (Thread # rest) s = Inr s'" for rest s'
  proof -
    define t where "t = flowThread_step R K s"
    have z: "sint (calibImageCount (snd (uncaptureAll ?c))) < sint (calibImageCountMax (snd (uncaptureAll ?c)))"
      using m by (simp add: uncaptureAll_def calibImageCount_def calibImageCountMax_def)
    have t: "t = s\<lparr>gFlowCalib := snd (uncaptureAll ?c), pc := CancelMask,
                   trace := trace s @ [ActUncaptureAll (m_corners ?c \<noteq> [])]\<rparr>"
      unfolding t_def flowThread_step_def pc
      using run ne nf z
      by (simp add: split_beta after_loop_def record_call_def) (simp add: uncaptureAll_def)
    have pt: "pc t = CancelMask" "gInited t" "m_corners (gFlowCalib t) = []"
      "trace t = trace s @ [ActUncaptureAll (m_corners ?c \<noteq> [])]"
      using ini by (simp_all add: t uncaptureAll_def)
    from r have e: "exec R D K rest t = Inr s'" and n: "count_list rest Thread = 2"
      by (simp_all add: t_def)
    from after_back_without_capture [OF pt(1) n e pt(2)] pt
    have a: "trace s' = trace s
                @ [ActUncaptureAll (m_corners ?c \<noteq> []), ActSetEventMask EVENT_TOUCH,
                   ActStateSet FLOW_STATE_DONE]"
      "pc s' = CancelWait" "gEventMask s' = EVENT_TOUCH" "flowStateGet s' = FLOW_STATE_DONE"
      "m_corners (gFlowCalib s') = []" by simp_all
    have "flowThread_step R K s' =
                  (if gEvent s' = EVENT_NONE \<and> \<not> gStop s' then s'
                   else s'\<lparr>gEvent := EVENT_NONE, pc := CancelGot,
                           trace := trace s' @ [ActWaitForEvent (gEvent s')]\<rparr>)"
      using a(2) by (simp add: flowThread_step_def wait_step)
    with a show ?thesis by blast
  qed
  have 2: "flowStateGet s = FLOW_STATE_CAPTURING
              \<and> (\<exists>xs x. m_corners ?c = xs @ [x]
                    \<and> flowThread_step R K s =
                        s\<lparr>gFlowCalib := ?c\<lparr>m_corners := xs\<rparr>,
                          captureDoneSinceBackButtonLastPressed := False,
                          pc := CaptureWait,
                          trace := trace s @ [ActUncapture True]\<rparr>)"
    if fl: "captureDoneSinceBackButtonLastPressed s"
  proof -
    from f fl have "m_corners ?c \<noteq> []" by blast
    then obtain xs x where x: "m_corners ?c = xs @ [x]" by (metis rev_exhaust)
    have "sint (m_calibImageCountMax ?c) < 2 ^ 31" using sint_lt [of "m_calibImageCountMax ?c"] by simp
    then have l: "length xs < 2 ^ 31" using b m x by simp
    have lt: "int (length xs) < sint (m_calibImageCountMax ?c)" using b m x by simp
    have u: "uncapture ?c = (True, ?c\<lparr>m_corners := xs\<rparr>)" using x by (simp add: uncapture_def)
    have z: "sint (calibImageCount (?c\<lparr>m_corners := xs\<rparr>))
               < sint (calibImageCountMax (?c\<lparr>m_corners := xs\<rparr>))"
      using lt by (simp add: calibImageCount_def calibImageCountMax_def sint_of_nat [OF l])
    have "flowThread_step R K s =
                        s\<lparr>gFlowCalib := ?c\<lparr>m_corners := xs\<rparr>,
                          captureDoneSinceBackButtonLastPressed := False,
                          pc := CaptureWait,
                          trace := trace s @ [ActUncapture True]\<rparr>"
      unfolding flowThread_step_def pc
      using run ne fl u z by (simp add: loop_test_def record_call_def)
    with x g ini show ?thesis by (auto simp: flowStateGet_def)
  qed
  have 3: "\<forall>t. pc t = CancelGot \<and> \<not> gStop t \<longrightarrow> flowThread_step R K t = t\<lparr>pc := LoopTop\<rparr>"
    by (simp add: flowThread_step_def)
  from 1 2 3 show ?thesis by blast
qed

theorem back_button_in_capture_witness:
  "(case exec (\<lambda>img cs. cs) (\<lambda>img sz. (True, [(1, 1)])) (\<lambda>c. ([], 0, 0, 0))
           [Thread, Thread, Thread, Env (HandleEvent EVENT_TOUCH), Thread, Thread, Thread,
            Env (FrameCycle False False
                   \<lparr>checkoutFrameIfNewerThan = Some [1, 2, 3, 4], getVideoWidth = 2, getVideoHeight = 2\<rparr>),
            Env WorkerPass,
            Env (FrameCycle True True
                   \<lparr>checkoutFrameIfNewerThan = None, getVideoWidth = 2, getVideoHeight = 2\<rparr>),
            Env (HandleEvent EVENT_TOUCH), Thread, Thread,
            Env (HandleEvent EVENT_BACK_BUTTON), Thread]
           (flowInitAndStart (Calibration_new CHESSBOARD 3 (7, 5) 30 2 2) True) of
      Inl a \<Rightarrow> False
    | Inr s \<Rightarrow>
        pc s = CaptureGot EVENT_BACK_BUTTON \<and> captureDoneSinceBackButtonLastPressed s
        \<and> m_corners (gFlowCalib s) = [[(1, 1)]]
        \<and> flowStateGet s = FLOW_STATE_CAPTURING
        \<and> flowThread_step (\<lambda>img cs. cs) (\<lambda>c. ([], 0, 0, 0)) s =
            s\<lparr>gFlowCalib := (gFlowCalib s)\<lparr>m_corners := []\<rparr>,
              captureDoneSinceBackButtonLastPressed := False,
              pc := CaptureWait,
              trace := trace s @ [ActUncapture True]\<rparr>)
   \<and> (case exec (\<lambda>img cs. cs) (\<lambda>img sz. (True, [(1, 1)])) (\<lambda>c. ([], 0, 0, 0))
           [Thread, Thread, Thread, Env (HandleEvent EVENT_TOUCH), Thread, Thread, Thread,
            Env (HandleEvent EVENT_BACK_BUTTON), Thread]
           (flowInitAndStart (Calibration_new CHESSBOARD 3 (7, 5) 30 2 2) True) of
      Inl a \<Rightarrow> False
    | Inr s \<Rightarrow>
        pc s = CaptureGot EVENT_BACK_BUTTON \<and> \<not> captureDoneSinceBackButtonLastPressed s
        \<and> (case exec (\<lambda>img cs. cs) (\<lambda>img sz. (True, [(1, 1)])) (\<lambda>c. ([], 0, 0, 0))
                  [Thread, Env (HandleEvent EVENT_MODAL), Thread, Thread] s of
              Inl a \<Rightarrow> False
            | Inr s' \<Rightarrow>
                trace s' = trace s
                  @ [ActUncaptureAll False, ActSetEventMask EVENT_TOUCH, ActStateSet FLOW_STATE_DONE]
                \<and> pc s' = CancelWait \<and> flowStateGet s' = FLOW_STATE_DONE))"
proof -
  let ?R = "\<lambda>(img :: uint8_t list option) (cs :: Point2f list). cs"
  let ?D = "\<lambda>(img :: uint8_t list option) (sz :: cv_Size). (True, [(1, 1) :: Point2f])"
  let ?K = "\<lambda>c :: Calibration. ([] :: real list, 0 :: real, 0 :: real, 0 :: real)"
  let ?c = "Calibration_new CHESSBOARD 3 (7, 5) 30 2 2"
  have fresh: "m_corners ?c = []" and pos: "0 < sint (m_calibImageCountMax ?c)"
    by (simp_all add: Calibration_new_def)
  \<comment> \<open>after one capture\<close>
  define A where "A = exec ?R ?D ?K
           [Thread, Thread, Thread, Env (HandleEvent EVENT_TOUCH), Thread, Thread, Thread,
            Env (FrameCycle False False
                   \<lparr>checkoutFrameIfNewerThan = Some [1, 2, 3, 4], getVideoWidth = 2, getVideoHeight = 2\<rparr>),
            Env WorkerPass,
            Env (FrameCycle True True
                   \<lparr>checkoutFrameIfNewerThan = None, getVideoWidth = 2, getVideoHeight = 2\<rparr>),
            Env (HandleEvent EVENT_TOUCH), Thread, Thread,
            Env (HandleEvent EVENT_BACK_BUTTON), Thread]
           (flowInitAndStart ?c True)"
  have "case A of Inl a \<Rightarrow> False
        | Inr s \<Rightarrow> pc s = CaptureGot EVENT_BACK_BUTTON \<and> \<not> gStop s
            \<and> captureDoneSinceBackButtonLastPressed s \<and> m_corners (gFlowCalib s) = [[(1, 1)]]"
    unfolding A_def by code_simp
  then obtain S where hA: "A = Inr S" and pA: "pc S = CaptureGot EVENT_BACK_BUTTON"
    and rA: "\<not> gStop S" and fA: "captureDoneSinceBackButtonLastPressed S"
    and mA: "m_corners (gFlowCalib S) = [[(1, 1)]]"
    by (cases A) auto
  note thA = back_button_in_capture [OF hA [unfolded A_def] fresh pos pA rA]
  from thA fA obtain xs x where x: "m_corners (gFlowCalib S) = xs @ [x]"
    and st: "flowThread_step ?R ?K S =
            S\<lparr>gFlowCalib := (gFlowCalib S)\<lparr>m_corners := xs\<rparr>,
              captureDoneSinceBackButtonLastPressed := False,
              pc := CaptureWait,
              trace := trace S @ [ActUncapture True]\<rparr>"
    and gA: "flowStateGet S = FLOW_STATE_CAPTURING"
    by blast
  from x mA have "xs = []" by simp
  with st have 1: "flowThread_step ?R ?K S =
            S\<lparr>gFlowCalib := (gFlowCalib S)\<lparr>m_corners := []\<rparr>,
              captureDoneSinceBackButtonLastPressed := False,
              pc := CaptureWait,
              trace := trace S @ [ActUncapture True]\<rparr>"
    by (simp only:)
  \<comment> \<open>without a capture\<close>
  define B where "B = exec ?R ?D ?K
           [Thread, Thread, Thread, Env (HandleEvent EVENT_TOUCH), Thread, Thread, Thread,
            Env (HandleEvent EVENT_BACK_BUTTON), Thread]
           (flowInitAndStart ?c True)"
  have "case B of Inl a \<Rightarrow> False
        | Inr s \<Rightarrow> pc s = CaptureGot EVENT_BACK_BUTTON \<and> \<not> gStop s
            \<and> \<not> captureDoneSinceBackButtonLastPressed s \<and> m_corners (gFlowCalib s) = []
            \<and> (case exec ?R ?D ?K [Thread, Env (HandleEvent EVENT_MODAL), Thread, Thread] s of
                  Inl a \<Rightarrow> False | Inr s' \<Rightarrow> True)"
    unfolding B_def by code_simp
  then obtain T where hB: "B = Inr T" and pB: "pc T = CaptureGot EVENT_BACK_BUTTON"
    and rB: "\<not> gStop T" and fB: "\<not> captureDoneSinceBackButtonLastPressed T"
    and mB: "m_corners (gFlowCalib T) = []"
    and eB: "case exec ?R ?D ?K [Thread, Env (HandleEvent EVENT_MODAL), Thread, Thread] T of
                  Inl a \<Rightarrow> False | Inr s' \<Rightarrow> True"
    by (cases B) auto
  from eB obtain T' where hT: "exec ?R ?D ?K (Thread # [Env (HandleEvent EVENT_MODAL), Thread, Thread]) T = Inr T'"
    by (cases "exec ?R ?D ?K [Thread, Env (HandleEvent EVENT_MODAL), Thread, Thread] T") auto
  have cnt: "count_list [Env (HandleEvent EVENT_MODAL), Thread, Thread] Thread = 2" by simp
  note thB = back_button_in_capture [OF hB [unfolded B_def] fresh pos pB rB]
  from thB fB cnt hT have 2:
    "trace T' = trace T
        @ [ActUncaptureAll (m_corners (gFlowCalib T) \<noteq> []), ActSetEventMask EVENT_TOUCH,
           ActStateSet FLOW_STATE_DONE]"
    "pc T' = CancelWait" "flowStateGet T' = FLOW_STATE_DONE"
    by blast+
  have 3: "(m_corners (gFlowCalib T) \<noteq> []) = False" using mB by simp
  have a: "pc S = CaptureGot EVENT_BACK_BUTTON \<and> captureDoneSinceBackButtonLastPressed S
        \<and> m_corners (gFlowCalib S) = [[(1, 1)]]
        \<and> flowStateGet S = FLOW_STATE_CAPTURING
        \<and> flowThread_step ?R ?K S =
            S\<lparr>gFlowCalib := (gFlowCalib S)\<lparr>m_corners := []\<rparr>,
              captureDoneSinceBackButtonLastPressed := False,
              pc := CaptureWait,
              trace := trace S @ [ActUncapture True]\<rparr>"
    using pA fA mA gA 1 by blast
  have b: "pc T = CaptureGot EVENT_BACK_BUTTON \<and> \<not> captureDoneSinceBackButtonLastPressed T
        \<and> (case exec ?R ?D ?K [Thread, Env (HandleEvent EVENT_MODAL), Thread, Thread] T of
              Inl a \<Rightarrow> False
            | Inr s' \<Rightarrow>
                trace s' = trace T
                  @ [ActUncaptureAll False, ActSetEventMask EVENT_TOUCH, ActStateSet FLOW_STATE_DONE]
                \<and> pc s' = CancelWait \<and> flowStateGet s' = FLOW_STATE_DONE)"
    using pB fB 2 [unfolded 3] by (simp only: hT sum.case simp_thms)
  show ?thesis
    unfolding A_def [symmetric] B_def [symmetric] hA hB sum.case
    using a b by (rule conjI)
qed

section \<open>Event delivery\<close>

text \<open>
  C5. In an initialised controller, an event without a bit in the mask is discarded:
  \<^verbatim>\<open>flowHandleEvent\<close> returns false, stores nothing and signals nothing. An event with a
  bit in the mask returns true, replaces the stored event, whatever it was, and signals
  once. After any sequence of posted events of which at least one has a bit in the mask,
  the waiting thread (no stop requested) returns the last posted event that has a bit in
  the mask and clears the slot, and a second wait finds nothing: one event is observed,
  never two.
\<close>

theorem mailbox_one_deep:
  assumes "gInited s"
  shows "(ev AND gEventMask s = EVENT_NONE \<longrightarrow> flowHandleEvent ev s = (False, s))
   \<and> (ev AND gEventMask s \<noteq> EVENT_NONE \<longrightarrow>
        flowHandleEvent ev s = (True, s\<lparr>gEvent := ev, gEventCond := gEventCond s + 1\<rparr>))
   \<and> (filter (\<lambda>e. e AND gEventMask s \<noteq> EVENT_NONE) evs \<noteq> [] \<and> \<not> gStop s \<longrightarrow>
        flowWaitForEvent (flowHandleEvents evs s) =
          Some (last (filter (\<lambda>e. e AND gEventMask s \<noteq> EVENT_NONE) evs),
                (flowHandleEvents evs s)\<lparr>gEvent := EVENT_NONE\<rparr>)
        \<and> flowWaitForEvent ((flowHandleEvents evs s)\<lparr>gEvent := EVENT_NONE\<rparr>) = None)"
proof -
  have 1: "ev AND gEventMask s = EVENT_NONE \<longrightarrow> flowHandleEvent ev s = (False, s)"
    using assms by (simp add: flowHandleEvent_def)
  have 2: "ev AND gEventMask s \<noteq> EVENT_NONE \<longrightarrow>
        flowHandleEvent ev s = (True, s\<lparr>gEvent := ev, gEventCond := gEventCond s + 1\<rparr>)"
    using assms by (simp add: flowHandleEvent_def)
  have 3: "flowWaitForEvent (flowHandleEvents evs s) =
          Some (last (filter (\<lambda>e. e AND gEventMask s \<noteq> EVENT_NONE) evs),
                (flowHandleEvents evs s)\<lparr>gEvent := EVENT_NONE\<rparr>)
        \<and> flowWaitForEvent ((flowHandleEvents evs s)\<lparr>gEvent := EVENT_NONE\<rparr>) = None"
    if a: "filter (\<lambda>e. e AND gEventMask s \<noteq> EVENT_NONE) evs \<noteq> []" and b: "\<not> gStop s"
  proof -
    let ?l = "last (filter (\<lambda>e. e AND gEventMask s \<noteq> EVENT_NONE) evs)"
    have e: "gEvent (flowHandleEvents evs s) = ?l"
      using posts_event [OF assms, of evs] a by simp
    have "?l \<in> set (filter (\<lambda>e. e AND gEventMask s \<noteq> EVENT_NONE) evs)"
      using a by (rule last_in_set)
    then have "?l AND gEventMask s \<noteq> EVENT_NONE" by simp
    then have n: "?l \<noteq> EVENT_NONE" by (auto simp: EVENT_NONE_def)
    show ?thesis using e n b posts_keep [of evs s]
      by (simp add: flowWaitForEvent_def)
  qed
  from 1 2 3 show ?thesis by blast
qed

theorem mailbox_one_deep_witness:
  "flowWaitForEvent
     (flowHandleEvents [EVENT_MODAL, EVENT_TOUCH, EVENT_TOUCH, EVENT_BACK_BUTTON, EVENT_MODAL]
        ((flowInitAndStart (Calibration_new CHESSBOARD 3 (7, 5) 30 2 2) True)
           \<lparr>gEventMask := EVENT_TOUCH OR EVENT_BACK_BUTTON\<rparr>))
   = Some (EVENT_BACK_BUTTON,
       (flowHandleEvents [EVENT_MODAL, EVENT_TOUCH, EVENT_TOUCH, EVENT_BACK_BUTTON, EVENT_MODAL]
          ((flowInitAndStart (Calibration_new CHESSBOARD 3 (7, 5) 30 2 2) True)
             \<lparr>gEventMask := EVENT_TOUCH OR EVENT_BACK_BUTTON\<rparr>))\<lparr>gEvent := EVENT_NONE\<rparr>)
   \<and> flowWaitForEvent
       ((flowHandleEvents [EVENT_MODAL, EVENT_TOUCH, EVENT_TOUCH, EVENT_BACK_BUTTON, EVENT_MODAL]
          ((flowInitAndStart (Calibration_new CHESSBOARD 3 (7, 5) 30 2 2) True)
             \<lparr>gEventMask := EVENT_TOUCH OR EVENT_BACK_BUTTON\<rparr>))\<lparr>gEvent := EVENT_NONE\<rparr>) = None
   \<and> flowHandleEvent EVENT_MODAL
        ((flowInitAndStart (Calibration_new CHESSBOARD 3 (7, 5) 30 2 2) True)
           \<lparr>gEventMask := EVENT_TOUCH OR EVENT_BACK_BUTTON\<rparr>)
      = (False, (flowInitAndStart (Calibration_new CHESSBOARD 3 (7, 5) 30 2 2) True)
           \<lparr>gEventMask := EVENT_TOUCH OR EVENT_BACK_BUTTON\<rparr>)"
proof -
  let ?s = "(flowInitAndStart (Calibration_new CHESSBOARD 3 (7, 5) 30 2 2) True)
           \<lparr>gEventMask := EVENT_TOUCH OR EVENT_BACK_BUTTON\<rparr>"
  have i: "gInited ?s" and m: "gEventMask ?s = 3" and st: "\<not> gStop ?s"
    by (simp_all add: flowInitAndStart_def EVENT_TOUCH_def EVENT_BACK_BUTTON_def)
  have f: "filter (\<lambda>e. e AND gEventMask ?s \<noteq> EVENT_NONE)
             [EVENT_MODAL, EVENT_TOUCH, EVENT_TOUCH, EVENT_BACK_BUTTON, EVENT_MODAL]
           = [EVENT_TOUCH, EVENT_TOUCH, EVENT_BACK_BUTTON]"
    unfolding m by (simp add: EVENT_NONE_def EVENT_TOUCH_def EVENT_BACK_BUTTON_def EVENT_MODAL_def)
  have z: "EVENT_MODAL AND gEventMask ?s = EVENT_NONE"
    unfolding m by (simp add: EVENT_NONE_def EVENT_MODAL_def)
  have ne: "filter (\<lambda>e. e AND gEventMask ?s \<noteq> EVENT_NONE)
             [EVENT_MODAL, EVENT_TOUCH, EVENT_TOUCH, EVENT_BACK_BUTTON, EVENT_MODAL] \<noteq> []"
    unfolding f by simp
  have l: "last (filter (\<lambda>e. e AND gEventMask ?s \<noteq> EVENT_NONE)
             [EVENT_MODAL, EVENT_TOUCH, EVENT_TOUCH, EVENT_BACK_BUTTON, EVENT_MODAL])
           = EVENT_BACK_BUTTON"
    unfolding f by simp
  note t = mailbox_one_deep [OF i, of EVENT_MODAL
      "[EVENT_MODAL, EVENT_TOUCH, EVENT_TOUCH, EVENT_BACK_BUTTON, EVENT_MODAL]"]
  from t z have A: "flowHandleEvent EVENT_MODAL ?s = (False, ?s)" by blast
  from t ne st have B:
    "flowWaitForEvent
       (flowHandleEvents [EVENT_MODAL, EVENT_TOUCH, EVENT_TOUCH, EVENT_BACK_BUTTON, EVENT_MODAL] ?s)
     = Some (last (filter (\<lambda>e. e AND gEventMask ?s \<noteq> EVENT_NONE)
                     [EVENT_MODAL, EVENT_TOUCH, EVENT_TOUCH, EVENT_BACK_BUTTON, EVENT_MODAL]),
             (flowHandleEvents [EVENT_MODAL, EVENT_TOUCH, EVENT_TOUCH, EVENT_BACK_BUTTON, EVENT_MODAL] ?s)
               \<lparr>gEvent := EVENT_NONE\<rparr>)
     \<and> flowWaitForEvent
         ((flowHandleEvents [EVENT_MODAL, EVENT_TOUCH, EVENT_TOUCH, EVENT_BACK_BUTTON, EVENT_MODAL] ?s)
            \<lparr>gEvent := EVENT_NONE\<rparr>) = None"
    by blast
  from A B show ?thesis unfolding l by blast
qed

end
